theory Spec2Isabelle
  imports Main "HOL-Library.AList" "HOL-Library.Word"
begin

section \<open>The collaboration handler of \<^verbatim>\<open>src/websockets/collaborationHandler.ts\<close>\<close>

text \<open>
  The handler keeps two module-level JavaScript \<^verbatim>\<open>Map\<close>s, \<^verbatim>\<open>documentRooms\<close> and
  \<^verbatim>\<open>autoSaveTimers\<close>, and registers one callback per socket event. A JavaScript
  \<^verbatim>\<open>Map\<close> iterates in insertion order, \<^verbatim>\<open>set\<close> on a present key keeps the key's place and
  \<^verbatim>\<open>set\<close> on a new key appends it: that is an association list with
  \<^const>\<open>AList.update\<close>, \<^const>\<open>AList.delete\<close> and \<^const>\<open>map_of\<close>.

  Node runs every callback to completion on one event loop. A callback that awaits is
  cut at the \<^verbatim>\<open>await\<close>: the part before it and the part after it are two steps, and other
  callbacks may run between them. The calls of the logger change nothing the handlers
  read and are left out.
\<close>

subsection \<open>Data\<close>

text \<open>The part of a socket the handlers read: \<^verbatim>\<open>socket.id\<close> and \<^verbatim>\<open>socket.data.user.id\<close>.\<close>

record Socket =
  socket_id :: string
  user_id :: string

record SocketUser =
  socketId :: string
  userId :: string
  userName :: string
  color :: string

record DocumentRoom =
  documentId :: string
  users :: "(string \<times> SocketUser) list"

record DocumentAutoSave =
  save_documentId :: string
  content :: string
  timeout :: nat

text \<open>The Mongoose document (\<^verbatim>\<open>models/Document.ts\<close>); object ids are compared as strings.\<close>

datatype permission = Owner | Editor | Viewer

record ICollaborator =
  user :: string
  permission :: permission

record IDocumentModel =
  title :: string
  doc_content :: string
  owner :: string
  collaborators :: "ICollaborator list"

text \<open>
  What an awaited store call gives back: the promise rejects (the \<^verbatim>\<open>catch\<close> branch runs)
  or resolves with a value.
\<close>

datatype 'a awaited = Rejected | Resolved 'a

text \<open>
  The events a handler emits, with their fields in this order: \<^verbatim>\<open>error\<close> (message),
  \<^verbatim>\<open>user-joined\<close> (userId, userName, color), \<^verbatim>\<open>users-list\<close> (the presences),
  \<^verbatim>\<open>text-change\<close> (delta, content, userId), \<^verbatim>\<open>cursor-move\<close> (userId, userName, color,
  position), \<^verbatim>\<open>document-saved\<close> (success, timestamp if any) and \<^verbatim>\<open>user-left\<close> (userId,
  userName). The edit delta is opaque to the server; it is carried as a string. A cursor
  position is a number.
\<close>

datatype payload =
    Error string
  | UserJoined string string string
  | UsersList "SocketUser list"
  | TextChange string string string
  | CursorMove string string string int
  | DocumentSaved bool "nat option"
  | UserLeft string string

text \<open>
  A pending \<^verbatim>\<open>setTimeout\<close>: when it is due, and the variables its callback closes over.
\<close>

record Timeout =
  fireAt :: nat
  cb_documentId :: string
  cb_content :: string
  cb_userId :: string

text \<open>
  The state the handlers act on. \<^verbatim>\<open>documentRooms\<close> and \<^verbatim>\<open>autoSaveTimers\<close> are the two maps
  of the module. The rest is the environment the module calls into:
  \<^item> \<open>connected\<close>: the ids of the sockets that are open;
  \<^item> \<open>sioRooms\<close>: the transport's rooms, a room name to the ids of the sockets in it
    (\<^verbatim>\<open>socket.join\<close>, \<^verbatim>\<open>socket.leave\<close>, \<^verbatim>\<open>socket.to(room)\<close>);
  \<^item> \<open>outbox\<close>: every emission, with the set of sockets it is addressed to;
  \<^item> \<open>clock\<close>, \<open>timeouts\<close>, \<open>nextTimeout\<close>: the event loop's time in milliseconds, its
    pending timeouts by handle, and the next fresh handle;
  \<^item> \<open>storeWrites\<close>: the calls \<^verbatim>\<open>Document.findByIdAndUpdate(documentId, {content})\<close> issued so
    far, in order;
  \<^item> \<open>inFlight\<close>: the auto-save callbacks suspended at their \<^verbatim>\<open>await\<close>, by document id.
\<close>

record state =
  documentRooms :: "(string \<times> DocumentRoom) list"
  autoSaveTimers :: "(string \<times> DocumentAutoSave) list"
  sioRooms :: "string \<Rightarrow> string set"
  outbox :: "(string set \<times> payload) list"
  clock :: nat
  timeouts :: "(nat \<times> Timeout) list"
  nextTimeout :: nat
  storeWrites :: "(string \<times> string) list"
  inFlight :: "string list"
  connected :: "string set"

definition init :: state where
  "init = \<lparr>documentRooms = [], autoSaveTimers = [], sioRooms = (\<lambda>_. {}), outbox = [],
            clock = 0, timeouts = [], nextTimeout = 0, storeWrites = [], inFlight = [],
            connected = {}\<rparr>"

subsection \<open>Constants\<close>

definition AUTO_SAVE_DEBOUNCE_MS :: nat where
  "AUTO_SAVE_DEBOUNCE_MS = 30000"

definition colors :: "string list" where
  "colors = [''#FF6B6B'', ''#4ECDC4'', ''#45B7D1'', ''#FFA07A'',
             ''#98D8C8'', ''#F7DC6F'', ''#BB8FCE'', ''#85C1E2'']"

text \<open>
  \<^verbatim>\<open>colors[Math.floor(Math.random() * colors.length)]\<close>: the random index is one of
  \<open>0, \<dots>, 7\<close>, a three-bit number, and is an argument of the model.
\<close>

definition generateUserColor :: "3 word \<Rightarrow> string" where
  "generateUserColor rnd = colors ! unat rnd"

subsection \<open>The transport and the event loop\<close>

definition socket_emit :: "Socket \<Rightarrow> payload \<Rightarrow> state \<Rightarrow> state" where
  "socket_emit socket p st = st\<lparr>outbox := outbox st @ [({socket_id socket}, p)]\<rparr>"

text \<open>\<^verbatim>\<open>socket.to(room).emit\<close>: to every socket in the room but the sender.\<close>

definition socket_to_emit :: "Socket \<Rightarrow> string \<Rightarrow> payload \<Rightarrow> state \<Rightarrow> state" where
  "socket_to_emit socket room p st =
     st\<lparr>outbox := outbox st @ [(sioRooms st room - {socket_id socket}, p)]\<rparr>"

text \<open>
  \<^verbatim>\<open>socket.join\<close> puts an open socket into the room. On a socket that has closed the
  transport has replaced \<^verbatim>\<open>join\<close> by a function that does nothing.
\<close>

definition socket_join :: "Socket \<Rightarrow> string \<Rightarrow> state \<Rightarrow> state" where
  "socket_join socket room st =
     (if socket_id socket \<in> connected st
      then st\<lparr>sioRooms := (sioRooms st)(room := insert (socket_id socket) (sioRooms st room))\<rparr>
      else st)"

definition socket_leave :: "Socket \<Rightarrow> string \<Rightarrow> state \<Rightarrow> state" where
  "socket_leave socket room st =
     st\<lparr>sioRooms := (sioRooms st)(room := sioRooms st room - {socket_id socket})\<rparr>"

definition setTimeout :: "string \<Rightarrow> string \<Rightarrow> string \<Rightarrow> nat \<Rightarrow> state \<Rightarrow> nat \<times> state" where
  "setTimeout d c u ms st =
     (nextTimeout st,
      st\<lparr>timeouts := timeouts st @
             [(nextTimeout st,
               \<lparr>fireAt = clock st + ms, cb_documentId = d, cb_content = c, cb_userId = u\<rparr>)],
         nextTimeout := Suc (nextTimeout st)\<rparr>)"

text \<open>Clearing a handle that has fired or was cleared already does nothing.\<close>

definition clearTimeout :: "nat \<Rightarrow> state \<Rightarrow> state" where
  "clearTimeout h st = st\<lparr>timeouts := AList.delete h (timeouts st)\<rparr>"

subsection \<open>The handlers\<close>

definition hasAccess :: "IDocumentModel \<Rightarrow> string \<Rightarrow> bool" where
  "hasAccess document uid \<longleftrightarrow>
     owner document = uid \<or> list_ex (\<lambda>c. user c = uid) (collaborators document)"

text \<open>
  \<^verbatim>\<open>join-document\<close>, from the point where \<^verbatim>\<open>await Document.findById(documentId)\<close> has
  settled with \<open>found\<close>. Nothing before the \<^verbatim>\<open>await\<close> touches the state. A rejected
  promise runs the \<^verbatim>\<open>catch\<close> branch. The room is a shared object: what the handler does to
  \<^verbatim>\<open>room.users\<close> is written back to the directory. After \<^verbatim>\<open>documentRooms.set\<close> the lookup of
  the room cannot fail; the model returns the state as it is there.
\<close>

definition join_document ::
  "Socket \<Rightarrow> string \<Rightarrow> string \<Rightarrow> IDocumentModel option awaited \<Rightarrow> 3 word \<Rightarrow> state \<Rightarrow> state" where
  "join_document socket documentId' userName' found rnd st =
     (case found of
        Rejected \<Rightarrow> socket_emit socket (Error ''Failed to join document'') st
      | Resolved None \<Rightarrow> socket_emit socket (Error ''Document not found'') st
      | Resolved (Some document) \<Rightarrow>
          if \<not> hasAccess document (user_id socket)
          then socket_emit socket (Error ''Access denied'') st
          else
            let st1 = socket_join socket documentId' st;
                rooms1 = (if map_of (documentRooms st1) documentId' = None
                          then AList.update documentId' \<lparr>documentId = documentId', users = []\<rparr>
                                 (documentRooms st1)
                          else documentRooms st1)
            in (case map_of rooms1 documentId' of
                  None \<Rightarrow> st1
                | Some room \<Rightarrow>
                    let userColor = generateUserColor rnd;
                        users1 = AList.update (socket_id socket)
                                   \<lparr>socketId = socket_id socket, userId = user_id socket,
                                    userName = userName', color = userColor\<rparr> (users room);
                        st2 = st1\<lparr>documentRooms :=
                                    AList.update documentId' (room\<lparr>users := users1\<rparr>) rooms1\<rparr>;
                        st3 = socket_to_emit socket documentId'
                                (UserJoined (user_id socket) userName' userColor) st2;
                        currentUsers = filter (\<lambda>u. socketId u \<noteq> socket_id socket)
                                         (map snd users1)
                    in socket_emit socket (UsersList currentUsers) st3))"

text \<open>
  \<^verbatim>\<open>text-change\<close>: relay to the room, clear the timeout the registry records for the
  document, set a new one and record it.
\<close>

definition text_change :: "Socket \<Rightarrow> string \<Rightarrow> string \<Rightarrow> string \<Rightarrow> state \<Rightarrow> state" where
  "text_change socket documentId' delta content' st =
     (let st1 = socket_to_emit socket documentId' (TextChange delta content' (user_id socket)) st;
          st2 = (case map_of (autoSaveTimers st1) documentId' of
                   Some existing \<Rightarrow> clearTimeout (timeout existing) st1
                 | None \<Rightarrow> st1);
          (h, st3) = setTimeout documentId' content' (user_id socket) AUTO_SAVE_DEBOUNCE_MS st2
      in st3\<lparr>autoSaveTimers :=
               AList.update documentId' \<lparr>save_documentId = documentId', content = content', timeout = h\<rparr>
                 (autoSaveTimers st3)\<rparr>)"

text \<open>
  The timeout's callback up to its \<^verbatim>\<open>await\<close>: the write is issued. The rest of the
  callback runs when the write has settled: on success it deletes the registry entry of
  the document, whichever timeout that entry records by then.
\<close>

definition autosave_fire :: "Timeout \<Rightarrow> state \<Rightarrow> state" where
  "autosave_fire t st =
     st\<lparr>storeWrites := storeWrites st @ [(cb_documentId t, cb_content t)],
        inFlight := inFlight st @ [cb_documentId t]\<rparr>"

definition autosave_settled :: "string \<Rightarrow> bool \<Rightarrow> state \<Rightarrow> state" where
  "autosave_settled documentId' ok st =
     (if documentId' \<in> set (inFlight st)
      then let st1 = st\<lparr>inFlight := remove1 documentId' (inFlight st)\<rparr>
           in if ok then st1\<lparr>autoSaveTimers := AList.delete documentId' (autoSaveTimers st1)\<rparr>
              else st1
      else st)"

text \<open>
  Time passes until \<open>t\<close>: the timeouts due by then leave the event loop, earliest first,
  and their callbacks run up to the \<^verbatim>\<open>await\<close>.
\<close>

definition due :: "nat \<Rightarrow> state \<Rightarrow> (nat \<times> Timeout) list" where
  "due t st = sort_key (\<lambda>p. fireAt (snd p)) (filter (\<lambda>p. fireAt (snd p) \<le> t) (timeouts st))"

definition fire :: "nat \<times> Timeout \<Rightarrow> state \<Rightarrow> state" where
  "fire p st = autosave_fire (snd p) (st\<lparr>timeouts := AList.delete (fst p) (timeouts st)\<rparr>)"

definition advance :: "nat \<Rightarrow> state \<Rightarrow> state" where
  "advance t st = (fold fire (due t st) st)\<lparr>clock := max (clock st) t\<rparr>"

definition cursor_move :: "Socket \<Rightarrow> string \<Rightarrow> int \<Rightarrow> state \<Rightarrow> state" where
  "cursor_move socket documentId' position st =
     (case map_of (documentRooms st) documentId' of
        None \<Rightarrow> st
      | Some room \<Rightarrow>
          (case map_of (users room) (socket_id socket) of
             None \<Rightarrow> st
           | Some u \<Rightarrow>
               socket_to_emit socket documentId'
                 (CursorMove (userId u) (userName u) (color u) position) st))"

text \<open>
  \<^verbatim>\<open>save-document\<close>: the write is issued at once; \<open>ok\<close> says whether the awaited write
  resolved. The timestamps are the clock's.
\<close>

definition save_document :: "Socket \<Rightarrow> string \<Rightarrow> string \<Rightarrow> bool \<Rightarrow> state \<Rightarrow> state" where
  "save_document socket documentId' content' ok st =
     (let st1 = st\<lparr>storeWrites := storeWrites st @ [(documentId', content')]\<rparr>
      in if ok
         then socket_to_emit socket documentId' (DocumentSaved True (Some (clock st1)))
                (socket_emit socket (DocumentSaved True (Some (clock st1))) st1)
         else socket_emit socket (DocumentSaved False None) st1)"

definition handleUserLeave :: "Socket \<Rightarrow> string \<Rightarrow> state \<Rightarrow> state" where
  "handleUserLeave socket documentId' st =
     socket_leave socket documentId'
       (case map_of (documentRooms st) documentId' of
          None \<Rightarrow> st
        | Some room \<Rightarrow>
            let (users1, st1) =
                  (case map_of (users room) (socket_id socket) of
                     None \<Rightarrow> (users room, st)
                   | Some u \<Rightarrow>
                       (AList.delete (socket_id socket) (users room),
                        socket_to_emit socket documentId' (UserLeft (userId u) (userName u)) st))
            in if length users1 = 0
               then st1\<lparr>documentRooms := AList.delete documentId' (documentRooms st1)\<rparr>
               else st1\<lparr>documentRooms :=
                          AList.update documentId' (room\<lparr>users := users1\<rparr>) (documentRooms st1)\<rparr>)"

definition leave_document :: "Socket \<Rightarrow> string \<Rightarrow> state \<Rightarrow> state" where
  "leave_document socket documentId' st = handleUserLeave socket documentId' st"

text \<open>
  The \<^verbatim>\<open>disconnect\<close> callback runs two \<^verbatim>\<open>forEach\<close> loops. The first visits the entries
  of \<^verbatim>\<open>documentRooms\<close> and calls \<^verbatim>\<open>handleUserLeave\<close> for every room whose roster has the
  socket; a visit changes or deletes only the entry it is at, so the loop sees each entry
  as it was when the loop began. The second visits the entries of \<^verbatim>\<open>autoSaveTimers\<close>,
  clears each entry's timeout and deletes the entry.
\<close>

definition leave_rooms :: "Socket \<Rightarrow> (string \<times> DocumentRoom) list \<Rightarrow> state \<Rightarrow> state" where
  "leave_rooms socket rooms st =
     fold (\<lambda>(documentId', room) s.
             if map_of (users room) (socket_id socket) \<noteq> None
             then handleUserLeave socket documentId' s else s)
       rooms st"

definition clear_timers :: "(string \<times> DocumentAutoSave) list \<Rightarrow> state \<Rightarrow> state" where
  "clear_timers saves st =
     fold (\<lambda>(documentId', save) s.
             (clearTimeout (timeout save) s)
               \<lparr>autoSaveTimers := AList.delete documentId' (autoSaveTimers s)\<rparr>)
       saves st"

definition disconnect_handler :: "Socket \<Rightarrow> state \<Rightarrow> state" where
  "disconnect_handler socket st =
     (let st1 = leave_rooms socket (documentRooms st) st
      in clear_timers (autoSaveTimers st1) st1)"

text \<open>
  A socket opens (\<^verbatim>\<open>io.on('connection')\<close>, after the authentication middleware has let it
  through); the callbacks registered for it touch no state.
\<close>

definition connection :: "Socket \<Rightarrow> state \<Rightarrow> state" where
  "connection socket st = st\<lparr>connected := insert (socket_id socket) (connected st)\<rparr>"

text \<open>
  The transport closes a socket and takes it out of all its rooms before it runs the
  \<^verbatim>\<open>disconnect\<close> callbacks. The continuation of a callback that was awaiting when the
  socket closed still runs afterwards, on the closed socket.
\<close>

definition socket_close :: "Socket \<Rightarrow> state \<Rightarrow> state" where
  "socket_close socket st =
     st\<lparr>sioRooms := (\<lambda>r. sioRooms st r - {socket_id socket}),
        connected := connected st - {socket_id socket}\<rparr>"

definition disconnect :: "Socket \<Rightarrow> state \<Rightarrow> state" where
  "disconnect socket st = disconnect_handler socket (socket_close socket st)"

subsection \<open>Runs\<close>

datatype event =
    Connection Socket
  | JoinDocument Socket string string "IDocumentModel option awaited" "3 word"
  | TextChangeEv Socket string string string
  | CursorMoveEv Socket string int
  | SaveDocument Socket string string bool
  | LeaveDocument Socket string
  | Disconnect Socket
  | Elapse nat
  | AutoSaveSettled string bool

fun step :: "event \<Rightarrow> state \<Rightarrow> state" where
  "step (Connection s) st = connection s st"
| "step (JoinDocument s d n found rnd) st = join_document s d n found rnd st"
| "step (TextChangeEv s d delta c) st = text_change s d delta c st"
| "step (CursorMoveEv s d p) st = cursor_move s d p st"
| "step (SaveDocument s d c ok) st = save_document s d c ok st"
| "step (LeaveDocument s d) st = leave_document s d st"
| "step (Disconnect s) st = disconnect s st"
| "step (Elapse ms) st = advance (clock st + ms) st"
| "step (AutoSaveSettled d ok) st = autosave_settled d ok st"

definition run :: "event list \<Rightarrow> state \<Rightarrow> state" where
  "run es st = fold step es st"

subsection \<open>Vocabulary of the properties\<close>

text \<open>The roster of a document's room: the keys of its \<^verbatim>\<open>users\<close> map, none without a room.\<close>

definition members :: "state \<Rightarrow> string \<Rightarrow> string list" where
  "members st docId =
     (case map_of (documentRooms st) docId of
        None \<Rightarrow> [] | Some room \<Rightarrow> map fst (users room))"

text \<open>The presence a socket has in a document's room, if any.\<close>

definition presence :: "state \<Rightarrow> string \<Rightarrow> string \<Rightarrow> SocketUser option" where
  "presence st docId sid =
     (case map_of (documentRooms st) docId of
        None \<Rightarrow> None | Some room \<Rightarrow> map_of (users room) sid)"

text \<open>The room a join works on: the one in the directory, or the fresh one it creates.\<close>

definition room_of :: "state \<Rightarrow> string \<Rightarrow> DocumentRoom" where
  "room_of st docId =
     (case map_of (documentRooms st) docId of
        None \<Rightarrow> \<lparr>documentId = docId, users = []\<rparr> | Some room \<Rightarrow> room)"

definition new_presence :: "Socket \<Rightarrow> string \<Rightarrow> 3 word \<Rightarrow> SocketUser" where
  "new_presence s n r =
     \<lparr>socketId = socket_id s, userId = user_id s, userName = n, color = generateUserColor r\<rparr>"

text \<open>
  The roster of a room and the transport's room of the same name hold the same sockets.
  A join by an open socket and a leave change both together, and a disconnect takes the
  socket out of both. A join that goes on after its socket has closed changes the roster
  alone.
\<close>

definition synced :: "state \<Rightarrow> string \<Rightarrow> bool" where
  "synced st docId \<longleftrightarrow> sioRooms st docId = set (members st docId)"

text \<open>
  An event is live when it is not the continuation of a join on a closed socket, and a run
  is live when each of its events is, in the state it meets.
\<close>

definition join_live :: "event \<Rightarrow> state \<Rightarrow> bool" where
  "join_live e st =
     (case e of JoinDocument s d n found r \<Rightarrow> socket_id s \<in> connected st | _ \<Rightarrow> True)"

fun live_run :: "event list \<Rightarrow> state \<Rightarrow> bool" where
  "live_run [] st = True"
| "live_run (e # es) st = (join_live e st \<and> live_run es (step e st))"

text \<open>Every presence of the room is stored under its own socket id.\<close>

definition roster_ok :: "state \<Rightarrow> string \<Rightarrow> bool" where
  "roster_ok st docId \<longleftrightarrow>
     list_all (\<lambda>p. socketId (snd p) = fst p) (users (room_of st docId))"

text \<open>No room of the directory has an empty roster.\<close>

definition no_empty_rooms :: "state \<Rightarrow> bool" where
  "no_empty_rooms st \<longleftrightarrow> list_all (\<lambda>p. users (snd p) \<noteq> []) (documentRooms st)"

text \<open>The pending timeouts whose callback writes the given document.\<close>

definition pending_for :: "state \<Rightarrow> string \<Rightarrow> (nat \<times> Timeout) list" where
  "pending_for st docId = filter (\<lambda>p. cb_documentId (snd p) = docId) (timeouts st)"

text \<open>The contents written to a document so far, in order.\<close>

definition writes_to :: "state \<Rightarrow> string \<Rightarrow> string list" where
  "writes_to st docId = map snd (filter (\<lambda>w. fst w = docId) (storeWrites st))"

text \<open>
  The event loop hands out fresh handles: the pending timeouts have distinct handles, all
  below the next one.
\<close>

definition timers_wf :: "state \<Rightarrow> bool" where
  "timers_wf st \<longleftrightarrow>
     distinct (map fst (timeouts st)) \<and> list_all (\<lambda>p. fst p < nextTimeout st) (timeouts st)"

text \<open>
  The registry knows the pending timeouts of a document: each of them is the one the
  document's registry entry records.
\<close>

definition registry_ok :: "state \<Rightarrow> string \<Rightarrow> bool" where
  "registry_ok st docId \<longleftrightarrow>
     list_all (\<lambda>p. case map_of (autoSaveTimers st) docId of
                      None \<Rightarrow> False | Some e \<Rightarrow> timeout e = fst p)
       (pending_for st docId)"

text \<open>
  A burst of edits of one document: each edit comes with the time that passed since the
  event before it, the socket, the delta and the content.
\<close>

fun burst :: "string \<Rightarrow> (nat \<times> Socket \<times> string \<times> string) list \<Rightarrow> state \<Rightarrow> state" where
  "burst docId [] st = st"
| "burst docId ((gap, s, delta, c) # es) st =
     burst docId es (text_change s docId delta c (advance (clock st + gap) st))"

text \<open>
  A debounced save of content \<open>c\<close> is armed for a document: its one pending timeout is due
  a debounce interval from now and will write \<open>c\<close>.
\<close>

definition armed :: "state \<Rightarrow> string \<Rightarrow> string \<Rightarrow> bool" where
  "armed st docId c \<longleftrightarrow>
     timers_wf st \<and> registry_ok st docId \<and>
     (case pending_for st docId of
        [p] \<Rightarrow> fireAt (snd p) = clock st + AUTO_SAVE_DEBOUNCE_MS \<and> cb_content (snd p) = c
      | _ \<Rightarrow> False)"

subsection \<open>Example sockets and documents\<close>

definition alice :: Socket where
  "alice = \<lparr>socket_id = ''sA'', user_id = ''u1''\<rparr>"

definition bob :: Socket where
  "bob = \<lparr>socket_id = ''sB'', user_id = ''u2''\<rparr>"

definition eve :: Socket where
  "eve = \<lparr>socket_id = ''sE'', user_id = ''u9''\<rparr>"

definition doc1 :: IDocumentModel where
  "doc1 = \<lparr>title = ''Notes'', doc_content = ''text'', owner = ''u1'',
           collaborators = [\<lparr>user = ''u1'', permission = Owner\<rparr>,
                            \<lparr>user = ''u2'', permission = Editor\<rparr>]\<rparr>"

text \<open>Alice and Bob have both joined the room of document \<open>d1\<close>.\<close>

definition joined2 :: state where
  "joined2 = run [Connection alice, Connection bob,
                  JoinDocument alice ''d1'' ''Ann'' (Resolved (Some doc1)) 1,
                  JoinDocument bob ''d1'' ''Bob'' (Resolved (Some doc1)) 2] init"

text \<open>
  A run in which a socket closes while its join awaits the document. Alice joins \<open>d1\<close>.
  Bob asks to join; his socket closes while \<^verbatim>\<open>findById\<close> is awaited, and the \<^verbatim>\<open>disconnect\<close>
  callback finds him in no roster. Then the document arrives and the rest of his join
  runs.
\<close>

definition ghost_trace :: "event list" where
  "ghost_trace =
     [Connection alice, Connection bob,
      JoinDocument alice ''d1'' ''Ann'' (Resolved (Some doc1)) 1,
      Disconnect bob,
      JoinDocument bob ''d1'' ''Bob'' (Resolved (Some doc1)) 2]"

text \<open>
  The same with the first joiner: Alice's socket closes while her join awaits the
  document, her join goes on, and then Bob joins.
\<close>

definition ghost_first_trace :: "event list" where
  "ghost_first_trace =
     [Connection alice, Connection bob,
      Disconnect alice,
      JoinDocument alice ''d1'' ''Ann'' (Resolved (Some doc1)) 1,
      JoinDocument bob ''d1'' ''Bob'' (Resolved (Some doc1)) 2]"

text \<open>Then Alice types: a debounced save of \<open>d1\<close> is pending.\<close>

definition edited :: state where
  "edited = text_change alice ''d1'' ''+Hello'' ''Hello'' joined2"

text \<open>
  A run in which an edit arrives while an auto-save write is in flight. Alice edits \<open>d1\<close>;
  thirty seconds later the timeout fires and the write of \<open>a\<close> is issued. Five
  milliseconds later she edits again (\<open>ab\<close>), which sets a new timeout and records it.
  Then the write of \<open>a\<close> resolves, and one second later she edits once more (\<open>abc\<close>).
\<close>

definition race_trace :: "event list" where
  "race_trace =
     [TextChangeEv alice ''d1'' ''+a'' ''a'',
      Elapse 30000,
      Elapse 5,
      TextChangeEv alice ''d1'' ''+b'' ''ab'',
      Elapse 5,
      AutoSaveSettled ''d1'' True,
      Elapse 1000,
      TextChangeEv alice ''d1'' ''+c'' ''abc'']"

section \<open>Properties\<close>

subsection \<open>Association lists\<close>

lemma list_all_update:
  "P (k, v) \<Longrightarrow> list_all P al \<Longrightarrow> list_all P (AList.update k v al)"
  by (induction al) auto

lemma list_all_delete: "list_all P al \<Longrightarrow> list_all P (AList.delete k al)"
  by (induction al) auto

lemma delete_only_key: "fst ` set al \<subseteq> {k} \<Longrightarrow> AList.delete k al = []"
  by (induction al) auto

lemma update_mem: "(k, v) \<in> set (AList.update k v al)"
  by (induction al) auto

lemma set_delete: "set (AList.delete k al) = {p \<in> set al. fst p \<noteq> k}"
  by (induction al) auto

lemma filter_delete:
  "list_all (\<lambda>p. socketId (snd p) = fst p) us \<Longrightarrow>
   filter (\<lambda>u. socketId u \<noteq> k) (map snd us) = map snd (AList.delete k us)"
  by (induction us) auto

lemma filter_update_delete:
  "list_all (\<lambda>p. socketId (snd p) = fst p) us \<Longrightarrow> socketId v = k \<Longrightarrow>
   filter (\<lambda>u. socketId u \<noteq> k) (map snd (AList.update k v us)) = map snd (AList.delete k us)"
  by (induction us) (auto simp: filter_delete)

subsection \<open>Opening and closing a socket\<close>

lemma socket_close_frame [simp]:
  "documentRooms (socket_close s st) = documentRooms st"
  "autoSaveTimers (socket_close s st) = autoSaveTimers st"
  "timeouts (socket_close s st) = timeouts st"
  "nextTimeout (socket_close s st) = nextTimeout st"
  "storeWrites (socket_close s st) = storeWrites st"
  "outbox (socket_close s st) = outbox st"
  "clock (socket_close s st) = clock st"
  "inFlight (socket_close s st) = inFlight st"
  "sioRooms (socket_close s st) r = sioRooms st r - {socket_id s}"
  "connected (socket_close s st) = connected st - {socket_id s}"
  by (simp_all add: socket_close_def)

lemma connection_frame [simp]:
  "documentRooms (connection s st) = documentRooms st"
  "autoSaveTimers (connection s st) = autoSaveTimers st"
  "timeouts (connection s st) = timeouts st"
  "nextTimeout (connection s st) = nextTimeout st"
  "storeWrites (connection s st) = storeWrites st"
  "outbox (connection s st) = outbox st"
  "clock (connection s st) = clock st"
  "inFlight (connection s st) = inFlight st"
  "sioRooms (connection s st) = sioRooms st"
  "connected (connection s st) = insert (socket_id s) (connected st)"
  by (simp_all add: connection_def)

lemma members_socket_close [simp]: "members (socket_close s st) d = members st d"
  by (simp add: members_def)

lemma members_connection [simp]: "members (connection s st) d = members st d"
  by (simp add: members_def)

lemma room_of_socket_close [simp]: "room_of (socket_close s st) d = room_of st d"
  by (simp add: room_of_def)

lemma room_of_connection [simp]: "room_of (connection s st) d = room_of st d"
  by (simp add: room_of_def)

subsection \<open>Joining a document\<close>

lemma hasAccess_iff:
  "hasAccess document uid \<longleftrightarrow>
     owner document = uid \<or> uid \<in> user ` set (collaborators document)"
  by (auto simp: hasAccess_def list_ex_iff)

lemma join_not_found:
  "join_document s d n (Resolved None) r st =
     st\<lparr>outbox := outbox st @ [({socket_id s}, Error ''Document not found'')]\<rparr>"
  by (simp add: join_document_def socket_emit_def)

lemma join_denied:
  "\<not> hasAccess doc (user_id s) \<Longrightarrow>
   join_document s d n (Resolved (Some doc)) r st =
     st\<lparr>outbox := outbox st @ [({socket_id s}, Error ''Access denied'')]\<rparr>"
  by (simp add: join_document_def socket_emit_def)

lemma join_admitted:
  "hasAccess doc (user_id s) \<Longrightarrow>
   join_document s d n (Resolved (Some doc)) r st =
     st\<lparr>documentRooms :=
          AList.update d
            ((room_of st d)\<lparr>users := AList.update (socket_id s) (new_presence s n r)
                                      (users (room_of st d))\<rparr>)
            (documentRooms st),
        sioRooms := (if socket_id s \<in> connected st
                     then (sioRooms st)(d := insert (socket_id s) (sioRooms st d))
                     else sioRooms st),
        outbox := outbox st @
          [(sioRooms st d - {socket_id s}, UserJoined (user_id s) n (generateUserColor r)),
           ({socket_id s},
            UsersList (filter (\<lambda>u. socketId u \<noteq> socket_id s)
                         (map snd (AList.update (socket_id s) (new_presence s n r)
                                     (users (room_of st d))))))]\<rparr>"
  by (cases "map_of (documentRooms st) d"; cases "socket_id s \<in> connected st")
     (simp_all add: join_document_def socket_emit_def socket_to_emit_def socket_join_def
        room_of_def new_presence_def Let_def update_conv')

lemma members_outbox [simp]: "members (st\<lparr>outbox := ob\<rparr>) d = members st d"
  by (simp add: members_def)

lemma presence_outbox [simp]: "presence (st\<lparr>outbox := ob\<rparr>) d sid = presence st d sid"
  by (simp add: presence_def)

lemma members_join_admitted:
  "hasAccess doc (user_id s) \<Longrightarrow>
   set (members (join_document s d n (Resolved (Some doc)) r st) d) =
     insert (socket_id s) (set (members st d))"
  by (auto simp: join_admitted members_def room_of_def update_conv' dom_update
           split: option.splits)

lemma presence_join_admitted:
  "hasAccess doc (user_id s) \<Longrightarrow>
   presence (join_document s d n (Resolved (Some doc)) r st) d (socket_id s) =
     Some (new_presence s n r)"
  by (simp add: join_admitted presence_def update_conv')

lemma sio_join_admitted:
  "hasAccess doc (user_id s) \<Longrightarrow>
   sioRooms (join_document s d n (Resolved (Some doc)) r st) d =
     (if socket_id s \<in> connected st then insert (socket_id s) (sioRooms st d)
      else sioRooms st d)"
  by (simp add: join_admitted)

lemma members_room_of: "members st d = map fst (users (room_of st d))"
  by (simp add: members_def room_of_def split: option.splits)

lemma room_of_join_admitted:
  "hasAccess doc (user_id s) \<Longrightarrow>
   room_of (join_document s d n (Resolved (Some doc)) r st) d' =
     (if d' = d
      then (room_of st d)\<lparr>users := AList.update (socket_id s) (new_presence s n r)
                                     (users (room_of st d))\<rparr>
      else room_of st d')"
  by (simp add: join_admitted room_of_def update_conv')

text \<open>
  A join by an open socket keeps every roster in step with the transport's room, whatever
  its outcome.
\<close>

lemma synced_join:
  assumes "synced st d'" and "socket_id s \<in> connected st"
  shows "synced (join_document s d n found r st) d'"
proof (cases found)
  case Rejected
  with assms show ?thesis
    by (simp add: join_document_def socket_emit_def synced_def)
next
  case (Resolved o1)
  show ?thesis
  proof (cases o1)
    case None
    with Resolved assms show ?thesis
      by (simp add: join_not_found synced_def)
  next
    case (Some doc)
    show ?thesis
    proof (cases "hasAccess doc (user_id s)")
      case True
      have "sioRooms (join_document s d n (Resolved (Some doc)) r st) d' =
              set (members (join_document s d n (Resolved (Some doc)) r st) d')"
        using assms unfolding synced_def members_room_of room_of_join_admitted [OF True]
        by (auto simp: dom_update join_admitted [OF True])
      with Resolved Some show ?thesis by (simp add: synced_def)
    next
      case False
      with Resolved Some assms show ?thesis
        by (simp add: join_denied synced_def)
    qed
  qed
qed

lemma roster_ok_join:
  assumes "roster_ok st d'"
  shows "roster_ok (join_document s d n found r st) d'"
proof (cases found)
  case Rejected
  with assms show ?thesis
    by (simp add: join_document_def socket_emit_def roster_ok_def room_of_def)
next
  case (Resolved o1)
  show ?thesis
  proof (cases o1)
    case None
    with Resolved assms show ?thesis
      by (simp add: join_not_found roster_ok_def room_of_def)
  next
    case (Some doc)
    show ?thesis
    proof (cases "hasAccess doc (user_id s)")
      case True
      have "roster_ok (join_document s d n (Resolved (Some doc)) r st) d'"
        using assms
        by (auto simp: roster_ok_def room_of_join_admitted [OF True] new_presence_def
              intro!: list_all_update)
      with Resolved Some show ?thesis by simp
    next
      case False
      with Resolved Some assms show ?thesis
        by (simp add: join_denied roster_ok_def room_of_def)
    qed
  qed
qed

lemma join_outbox:
  assumes "hasAccess doc (user_id s)" and "synced st d" and "roster_ok st d"
  shows "outbox (join_document s d n (Resolved (Some doc)) r st) =
           outbox st @
             [(set (members st d) - {socket_id s},
               UserJoined (user_id s) n (generateUserColor r)),
              ({socket_id s},
               UsersList (map snd (AList.delete (socket_id s) (users (room_of st d)))))]"
  using assms
  by (simp add: join_admitted synced_def roster_ok_def filter_update_delete new_presence_def)

subsection \<open>The example room\<close>

lemma alice_access: "hasAccess doc1 (user_id alice)"
  by (simp add: hasAccess_def doc1_def alice_def)

lemma bob_access: "hasAccess doc1 (user_id bob)"
  by (simp add: hasAccess_def doc1_def bob_def)

lemma eve_no_access: "\<not> hasAccess doc1 (user_id eve)"
  by (simp add: hasAccess_def doc1_def eve_def)

lemma color1: "generateUserColor 1 = ''#4ECDC4''"
  by (simp add: generateUserColor_def colors_def)

lemma color2: "generateUserColor 2 = ''#45B7D1''"
  by (simp add: generateUserColor_def colors_def)

lemma joined2_eq:
  "joined2 =
     \<lparr>documentRooms =
        [(''d1'', \<lparr>documentId = ''d1'',
                  users = [(''sA'', \<lparr>socketId = ''sA'', userId = ''u1'', userName = ''Ann'',
                                     color = ''#4ECDC4''\<rparr>),
                           (''sB'', \<lparr>socketId = ''sB'', userId = ''u2'', userName = ''Bob'',
                                     color = ''#45B7D1''\<rparr>)]\<rparr>)],
      autoSaveTimers = [],
      sioRooms = (\<lambda>_. {})(''d1'' := {''sA'', ''sB''}),
      outbox = [({}, UserJoined ''u1'' ''Ann'' ''#4ECDC4''), ({''sA''}, UsersList []),
                ({''sA''}, UserJoined ''u2'' ''Bob'' ''#45B7D1''),
                ({''sB''}, UsersList [\<lparr>socketId = ''sA'', userId = ''u1'', userName = ''Ann'',
                                     color = ''#4ECDC4''\<rparr>])],
      clock = 0, timeouts = [], nextTimeout = 0, storeWrites = [], inFlight = [],
      connected = {''sA'', ''sB''}\<rparr>"
  unfolding joined2_def run_def
  apply (simp add: join_admitted [OF alice_access] join_admitted [OF bob_access]
           room_of_def new_presence_def color1 color2)
  apply (simp add: init_def alice_def bob_def connection_def)
  apply (auto simp add: fun_eq_iff)
  done

lemma joined2_members: "members joined2 ''d1'' = [''sA'', ''sB'']"
  by (simp add: joined2_eq members_def)

lemma joined2_synced: "synced joined2 ''d1''"
  by (auto simp: joined2_eq synced_def members_def)

lemma joined2_roster_ok: "roster_ok joined2 ''d1''"
  by (simp add: joined2_eq roster_ok_def room_of_def)

subsection \<open>Admission and notifications\<close>

text \<open>
  C1. A join whose lookup resolves to no document emits the not-found error to the
  connection and changes nothing else; a join whose lookup fails emits the error of the
  \<^verbatim>\<open>catch\<close> branch and changes nothing else. A join by a user who is neither the owner
  nor among the collaborators emits the access-denied error and changes nothing else, so
  the user is not added to the roster. After a join that found the document the
  connection is in the roster exactly when it was there before or the user is the owner
  or a collaborator; it is in the transport's room exactly when it was there before or
  the user is the owner or a collaborator and the socket is still open.
\<close>

theorem join_document_access_gate:
  "join_document s d n (Resolved None) r st =
     st\<lparr>outbox := outbox st @ [({socket_id s}, Error ''Document not found'')]\<rparr>
   \<and> join_document s d n Rejected r st =
       st\<lparr>outbox := outbox st @ [({socket_id s}, Error ''Failed to join document'')]\<rparr>
   \<and> (owner doc \<noteq> user_id s \<and> user_id s \<notin> user ` set (collaborators doc) \<longrightarrow>
        join_document s d n (Resolved (Some doc)) r st =
          st\<lparr>outbox := outbox st @ [({socket_id s}, Error ''Access denied'')]\<rparr>)
   \<and> (socket_id s \<in> set (members (join_document s d n (Resolved (Some doc)) r st) d) \<longleftrightarrow>
        socket_id s \<in> set (members st d) \<or>
        owner doc = user_id s \<or> user_id s \<in> user ` set (collaborators doc))
   \<and> (socket_id s \<in> sioRooms (join_document s d n (Resolved (Some doc)) r st) d \<longleftrightarrow>
        socket_id s \<in> sioRooms st d \<or>
        socket_id s \<in> connected st \<and>
        (owner doc = user_id s \<or> user_id s \<in> user ` set (collaborators doc)))"
proof -
  have rej: "join_document s d n Rejected r st =
       st\<lparr>outbox := outbox st @ [({socket_id s}, Error ''Failed to join document'')]\<rparr>"
    by (simp add: join_document_def socket_emit_def)
  show ?thesis
  proof (cases "hasAccess doc (user_id s)")
    case True
    have acc: "owner doc = user_id s \<or> user_id s \<in> user ` set (collaborators doc)"
      using True by (simp add: hasAccess_iff)
    show ?thesis
      using acc rej members_join_admitted [OF True, of d n r st]
        sio_join_admitted [OF True, of d n r st]
      by (auto simp: join_not_found)
  next
    case False
    have nacc: "owner doc \<noteq> user_id s \<and> user_id s \<notin> user ` set (collaborators doc)"
      using False by (simp add: hasAccess_iff)
    show ?thesis
      using nacc rej by (simp add: join_not_found join_denied [OF False])
  qed
qed

theorem join_document_access_gate_witness:
  "(owner doc1 \<noteq> user_id eve \<and> user_id eve \<notin> user ` set (collaborators doc1))
   \<and> join_document eve ''d1'' ''Eve'' (Resolved (Some doc1)) 3 joined2 =
       joined2\<lparr>outbox := outbox joined2 @ [({''sE''}, Error ''Access denied'')]\<rparr>
   \<and> ''sE'' \<notin> set (members (join_document eve ''d1'' ''Eve'' (Resolved (Some doc1)) 3 joined2)
                      ''d1'')"
  using join_document_access_gate [of eve "''d1''" "''Eve''" 3 joined2 doc1]
  by (simp add: eve_def doc1_def joined2_members)

lemma init_synced: "synced init d"
  by (simp add: synced_def init_def members_def)

lemma init_roster_ok: "roster_ok init d"
  by (simp add: roster_ok_def init_def room_of_def)

subsection \<open>Relaying edits and cursors\<close>

lemma text_change_eq:
  "text_change s d delta c st =
     st\<lparr>outbox := outbox st @ [(sioRooms st d - {socket_id s}, TextChange delta c (user_id s))],
        timeouts := (case map_of (autoSaveTimers st) d of
                       None \<Rightarrow> timeouts st
                     | Some existing \<Rightarrow> AList.delete (timeout existing) (timeouts st)) @
                    [(nextTimeout st,
                      \<lparr>fireAt = clock st + AUTO_SAVE_DEBOUNCE_MS, cb_documentId = d,
                       cb_content = c, cb_userId = user_id s\<rparr>)],
        nextTimeout := Suc (nextTimeout st),
        autoSaveTimers := AList.update d
           \<lparr>save_documentId = d, content = c, timeout = nextTimeout st\<rparr> (autoSaveTimers st)\<rparr>"
  by (simp add: text_change_def socket_to_emit_def setTimeout_def clearTimeout_def Let_def
           split: option.splits)

text \<open>
  In a room whose roster agrees with the transport's room, a text-change from a member
  emits exactly one relay, carrying the delta, the content and the sender's user id; its
  receivers are the members of the room other than the sender, one fewer than the
  members, and the sender is not among them.
\<close>

lemma text_change_relay:
  "synced st d \<Longrightarrow> socket_id s \<in> set (members st d) \<Longrightarrow>
   outbox (text_change s d delta c st) =
     outbox st @ [(set (members st d) - {socket_id s}, TextChange delta c (user_id s))]
   \<and> card (set (members st d) - {socket_id s}) = card (set (members st d)) - 1
   \<and> socket_id s \<notin> set (members st d) - {socket_id s}"
  by (simp add: text_change_eq synced_def)

lemma text_change_relay_example:
  "synced joined2 ''d1'' \<and> socket_id alice \<in> set (members joined2 ''d1'')
   \<and> 2 \<le> card (set (members joined2 ''d1''))
   \<and> outbox (text_change alice ''d1'' ''+Hello'' ''Hello'' joined2) =
       outbox joined2 @ [({''sB''}, TextChange ''+Hello'' ''Hello'' ''u1'')]"
proof -
  have m: "socket_id alice \<in> set (members joined2 ''d1'')"
    by (simp add: joined2_members alice_def)
  have "outbox (text_change alice ''d1'' ''+Hello'' ''Hello'' joined2) =
          outbox joined2 @
            [(set (members joined2 ''d1'') - {socket_id alice},
              TextChange ''+Hello'' ''Hello'' (user_id alice))]"
    using text_change_relay [OF joined2_synced m] by (rule conjunct1)
  then show ?thesis
    using m by (auto simp: joined2_synced joined2_members alice_def)
qed

text \<open>
  A cursor-move from a socket with no presence in the document's room (as when the room
  does not exist) changes nothing and emits nothing. From a socket with a presence, it
  emits one cursor-move with the user id, name and colour of that presence and the
  position, to the transport's room without the sender; in a room whose roster agrees
  with the transport's room those are the other members.
\<close>

lemma cursor_move_relay:
  "(presence st d (socket_id s) = None \<longrightarrow> cursor_move s d p st = st)
   \<and> (map_of (documentRooms st) d = None \<longrightarrow> presence st d (socket_id s) = None)
   \<and> (\<forall>u. presence st d (socket_id s) = Some u \<longrightarrow>
        cursor_move s d p st =
          st\<lparr>outbox := outbox st @
               [(sioRooms st d - {socket_id s},
                 CursorMove (userId u) (userName u) (color u) p)]\<rparr>)
   \<and> (synced st d \<longrightarrow> sioRooms st d - {socket_id s} = set (members st d) - {socket_id s})"
  by (auto simp: cursor_move_def presence_def socket_to_emit_def synced_def
           split: option.splits)

lemma cursor_move_relay_example:
  "presence init ''d1'' (socket_id alice) = None
   \<and> cursor_move alice ''d1'' 7 init = init
   \<and> presence joined2 ''d1'' (socket_id alice) =
       Some \<lparr>socketId = ''sA'', userId = ''u1'', userName = ''Ann'', color = ''#4ECDC4''\<rparr>
   \<and> synced joined2 ''d1''
   \<and> cursor_move alice ''d1'' 7 joined2 =
       joined2\<lparr>outbox := outbox joined2 @ [({''sB''}, CursorMove ''u1'' ''Ann'' ''#4ECDC4'' 7)]\<rparr>"
proof -
  have p0: "presence init ''d1'' (socket_id alice) = None"
    by (simp add: presence_def init_def)
  have p2: "presence joined2 ''d1'' (socket_id alice) =
       Some \<lparr>socketId = ''sA'', userId = ''u1'', userName = ''Ann'', color = ''#4ECDC4''\<rparr>"
    by (simp add: presence_def joined2_eq alice_def)
  have c0: "cursor_move alice ''d1'' 7 init = init"
    using cursor_move_relay [THEN conjunct1, THEN mp, OF p0] .
  have c2: "cursor_move alice ''d1'' 7 joined2 =
          joined2\<lparr>outbox := outbox joined2 @
               [(sioRooms joined2 ''d1'' - {socket_id alice},
                 CursorMove ''u1'' ''Ann'' ''#4ECDC4'' 7)]\<rparr>"
    using cursor_move_relay [THEN conjunct2, THEN conjunct2, THEN conjunct1, THEN spec,
            THEN mp, OF p2]
    by simp
  have r: "sioRooms joined2 ''d1'' - {socket_id alice} = {''sB''}"
    using joined2_synced by (auto simp: synced_def joined2_members alice_def)
  show ?thesis
    using p0 p2 c0 c2 joined2_synced by (simp add: r)
qed

subsection \<open>Saving a document\<close>

text \<open>
  C8. A save-document issues the write of the given content at once and leaves the timer
  registry and the pending timeouts as they were. When the write resolves, the requester
  gets \<open>document-saved\<close> with success and a timestamp, then the rest of the transport's
  room gets the same; when it rejects, the only emission is \<open>document-saved\<close> without
  success to the requester.
\<close>

theorem save_document_immediate:
  "storeWrites (save_document s d c ok st) = storeWrites st @ [(d, c)]
   \<and> autoSaveTimers (save_document s d c ok st) = autoSaveTimers st
   \<and> timeouts (save_document s d c ok st) = timeouts st
   \<and> (ok \<longrightarrow> outbox (save_document s d c ok st) =
         outbox st @ [({socket_id s}, DocumentSaved True (Some (clock st))),
                      (sioRooms st d - {socket_id s}, DocumentSaved True (Some (clock st)))])
   \<and> (\<not> ok \<longrightarrow> outbox (save_document s d c ok st) =
         outbox st @ [({socket_id s}, DocumentSaved False None)])"
  by (simp add: save_document_def socket_emit_def socket_to_emit_def Let_def)

theorem save_document_immediate_witness:
  "outbox (save_document alice ''d1'' ''Hello'' True joined2) =
     outbox joined2 @ [({''sA''}, DocumentSaved True (Some 0)),
                       ({''sB''}, DocumentSaved True (Some 0))]
   \<and> outbox (save_document alice ''d1'' ''Hello'' False joined2) =
     outbox joined2 @ [({''sA''}, DocumentSaved False None)]"
proof -
  have t: "outbox (save_document alice ''d1'' ''Hello'' True joined2) =
         outbox joined2 @ [({socket_id alice}, DocumentSaved True (Some (clock joined2))),
            (sioRooms joined2 ''d1'' - {socket_id alice},
             DocumentSaved True (Some (clock joined2)))]"
    using save_document_immediate [of alice "''d1''" "''Hello''" True joined2] by simp
  have f: "outbox (save_document alice ''d1'' ''Hello'' False joined2) =
         outbox joined2 @ [({socket_id alice}, DocumentSaved False None)]"
    using save_document_immediate [of alice "''d1''" "''Hello''" False joined2] by simp
  have r: "sioRooms joined2 ''d1'' - {''sA''} = {''sB''}"
    using joined2_synced by (auto simp: synced_def joined2_members)
  have c: "clock joined2 = 0"
    by (simp add: joined2_eq)
  show ?thesis
    using t f by (simp add: r c alice_def)
qed

subsection \<open>Timeouts\<close>

lemma delete_filter: "AList.delete k al = filter (\<lambda>p. fst p \<noteq> k) al"
  by (induction al) auto

lemma fold_fire_writes:
  "storeWrites (fold fire ps st) =
     storeWrites st @ map (\<lambda>p. (cb_documentId (snd p), cb_content (snd p))) ps"
  by (induction ps arbitrary: st) (simp_all add: fire_def autosave_fire_def)

lemma fold_fire_timeouts:
  "timeouts (fold fire ps st) = filter (\<lambda>q. fst q \<notin> fst ` set ps) (timeouts st)"
  by (induction ps arbitrary: st)
     (auto simp: fire_def autosave_fire_def delete_filter intro: filter_cong)

lemma fold_fire_inFlight:
  "inFlight (fold fire ps st) = inFlight st @ map (\<lambda>p. cb_documentId (snd p)) ps"
  by (induction ps arbitrary: st) (simp_all add: fire_def autosave_fire_def)

lemma fold_fire_frame:
  "autoSaveTimers (fold fire ps st) = autoSaveTimers st"
  "documentRooms (fold fire ps st) = documentRooms st"
  "sioRooms (fold fire ps st) = sioRooms st"
  "outbox (fold fire ps st) = outbox st"
  "nextTimeout (fold fire ps st) = nextTimeout st"
  "clock (fold fire ps st) = clock st"
  by (induction ps arbitrary: st) (simp_all add: fire_def autosave_fire_def)

lemma set_due: "set (due t st) = {p \<in> set (timeouts st). fireAt (snd p) \<le> t}"
  by (auto simp: due_def)

lemma advance_writes:
  "storeWrites (advance t st) =
     storeWrites st @ map (\<lambda>p. (cb_documentId (snd p), cb_content (snd p))) (due t st)"
  by (simp add: advance_def fold_fire_writes)

lemma advance_timeouts:
  "timeouts (advance t st) = filter (\<lambda>q. fst q \<notin> fst ` set (due t st)) (timeouts st)"
  by (simp add: advance_def fold_fire_timeouts)

lemma advance_frame:
  "autoSaveTimers (advance t st) = autoSaveTimers st"
  "documentRooms (advance t st) = documentRooms st"
  "sioRooms (advance t st) = sioRooms st"
  "outbox (advance t st) = outbox st"
  "nextTimeout (advance t st) = nextTimeout st"
  "clock (advance t st) = max (clock st) t"
  by (simp_all add: advance_def fold_fire_frame)

lemma advance_no_timeouts: "timeouts st = [] \<Longrightarrow> storeWrites (advance t st) = storeWrites st"
  by (simp add: advance_writes due_def)

subsection \<open>Leaving and disconnecting: the timers\<close>

lemma clear_timers_Nil [simp]: "clear_timers [] st = st"
  by (simp add: clear_timers_def)

lemma clear_timers_Cons [simp]:
  "clear_timers (p # ps) st =
     clear_timers ps
       ((clearTimeout (timeout (snd p)) st)
          \<lparr>autoSaveTimers := AList.delete (fst p) (autoSaveTimers st)\<rparr>)"
  by (simp add: clear_timers_def case_prod_unfold)

lemma clear_timers_registry:
  "autoSaveTimers (clear_timers xs st) =
     filter (\<lambda>p. fst p \<notin> fst ` set xs) (autoSaveTimers st)"
  by (induction xs arbitrary: st) (auto simp: clearTimeout_def delete_filter intro: filter_cong)

lemma clear_timers_timeouts:
  "timeouts (clear_timers xs st) =
     filter (\<lambda>p. fst p \<notin> (\<lambda>q. timeout (snd q)) ` set xs) (timeouts st)"
  by (induction xs arbitrary: st) (auto simp: clearTimeout_def delete_filter intro: filter_cong)

lemma clear_timers_frame:
  "storeWrites (clear_timers xs st) = storeWrites st"
  "outbox (clear_timers xs st) = outbox st"
  "documentRooms (clear_timers xs st) = documentRooms st"
  "sioRooms (clear_timers xs st) = sioRooms st"
  "inFlight (clear_timers xs st) = inFlight st"
  by (induction xs arbitrary: st) (simp_all add: clearTimeout_def)

lemma handleUserLeave_frame:
  "autoSaveTimers (handleUserLeave s d st) = autoSaveTimers st"
  "timeouts (handleUserLeave s d st) = timeouts st"
  "storeWrites (handleUserLeave s d st) = storeWrites st"
  "nextTimeout (handleUserLeave s d st) = nextTimeout st"
  "clock (handleUserLeave s d st) = clock st"
  "inFlight (handleUserLeave s d st) = inFlight st"
  by (simp_all add: handleUserLeave_def socket_leave_def socket_to_emit_def
        split: option.splits prod.splits)

lemma leave_rooms_Nil [simp]: "leave_rooms s [] st = st"
  by (simp add: leave_rooms_def)

lemma leave_rooms_Cons [simp]:
  "leave_rooms s (p # ps) st =
     leave_rooms s ps
       (if map_of (users (snd p)) (socket_id s) \<noteq> None
        then handleUserLeave s (fst p) st else st)"
  by (simp add: leave_rooms_def case_prod_unfold)

lemma leave_rooms_frame:
  "autoSaveTimers (leave_rooms s xs st) = autoSaveTimers st"
  "timeouts (leave_rooms s xs st) = timeouts st"
  "storeWrites (leave_rooms s xs st) = storeWrites st"
  by (induction xs arbitrary: st) (simp_all add: handleUserLeave_frame)

lemma disconnect_registry: "autoSaveTimers (disconnect s st) = []"
  by (simp add: disconnect_def disconnect_handler_def Let_def clear_timers_registry)

lemma disconnect_timeouts:
  "timeouts (disconnect s st) =
     filter (\<lambda>p. fst p \<notin> (\<lambda>q. timeout (snd q)) ` set (autoSaveTimers st)) (timeouts st)"
  by (simp add: disconnect_def disconnect_handler_def Let_def clear_timers_timeouts
        leave_rooms_frame)

lemma disconnect_writes: "storeWrites (disconnect s st) = storeWrites st"
  by (simp add: disconnect_def disconnect_handler_def Let_def clear_timers_frame
        leave_rooms_frame)

lemma edited_eq:
  "edited = joined2
     \<lparr>outbox := outbox joined2 @ [({''sB''}, TextChange ''+Hello'' ''Hello'' ''u1'')],
      timeouts := [(0, \<lparr>fireAt = 30000, cb_documentId = ''d1'', cb_content = ''Hello'',
                         cb_userId = ''u1''\<rparr>)],
      nextTimeout := 1,
      autoSaveTimers := [(''d1'', \<lparr>save_documentId = ''d1'', content = ''Hello'',
                                   timeout = 0\<rparr>)]\<rparr>"
  unfolding edited_def text_change_eq
  by (simp add: joined2_eq alice_def AUTO_SAVE_DEBOUNCE_MS_def insert_Diff_if)

text \<open>
  C6. After the disconnect of any socket the timer registry is empty, the timeout of every
  entry the registry had is no longer pending, and the disconnect itself writes nothing;
  when every pending timeout was the one of a registry entry, no later passing of time
  writes anything either, so the content those timeouts held is lost. None of this
  depends on the rooms the socket was in. A leave-document changes neither the registry
  nor the pending timeouts.
\<close>

theorem disconnect_cancels_all_timers:
  "autoSaveTimers (disconnect s st) = []
   \<and> (\<forall>p \<in> set (autoSaveTimers st).
         map_of (timeouts (disconnect s st)) (timeout (snd p)) = None)
   \<and> storeWrites (disconnect s st) = storeWrites st
   \<and> ((\<forall>q \<in> set (timeouts st). \<exists>p \<in> set (autoSaveTimers st). timeout (snd p) = fst q) \<longrightarrow>
        storeWrites (advance t (disconnect s st)) = storeWrites st)
   \<and> autoSaveTimers (leave_document s d st) = autoSaveTimers st
   \<and> timeouts (leave_document s d st) = timeouts st"
proof -
  have 1: "\<forall>p \<in> set (autoSaveTimers st).
             map_of (timeouts (disconnect s st)) (timeout (snd p)) = None"
    by (force simp: disconnect_timeouts map_of_eq_None_iff)
  have 2: "(\<forall>q \<in> set (timeouts st). \<exists>p \<in> set (autoSaveTimers st). timeout (snd p) = fst q) \<longrightarrow>
        storeWrites (advance t (disconnect s st)) = storeWrites st"
  proof
    assume a: "\<forall>q \<in> set (timeouts st). \<exists>p \<in> set (autoSaveTimers st). timeout (snd p) = fst q"
    have "timeouts (disconnect s st) = []"
      unfolding disconnect_timeouts filter_empty_conv using a by force
    then show "storeWrites (advance t (disconnect s st)) = storeWrites st"
      by (simp add: advance_no_timeouts disconnect_writes)
  qed
  show ?thesis
    using 1 2
    by (simp add: disconnect_registry disconnect_writes leave_document_def
          handleUserLeave_frame)
qed

theorem disconnect_cancels_all_timers_witness:
  "''sE'' \<notin> set (members edited ''d1'')
   \<and> autoSaveTimers edited =
       [(''d1'', \<lparr>save_documentId = ''d1'', content = ''Hello'', timeout = 0\<rparr>)]
   \<and> map_of (timeouts edited) 0 =
       Some \<lparr>fireAt = 30000, cb_documentId = ''d1'', cb_content = ''Hello'', cb_userId = ''u1''\<rparr>
   \<and> map_of (timeouts (disconnect eve edited)) 0 = None
   \<and> storeWrites (advance 60000 (disconnect eve edited)) = []"
proof -
  let ?e = "(''d1'', \<lparr>save_documentId = ''d1'', content = ''Hello'', timeout = 0\<rparr>)"
  have reg: "autoSaveTimers edited = [?e]"
    by (simp add: edited_eq)
  have tos: "timeouts edited =
       [(0, \<lparr>fireAt = 30000, cb_documentId = ''d1'', cb_content = ''Hello'', cb_userId = ''u1''\<rparr>)]"
    by (simp add: edited_eq)
  have mem: "?e \<in> set (autoSaveTimers edited)"
    by (simp add: reg)
  have all: "\<forall>q \<in> set (timeouts edited). \<exists>p \<in> set (autoSaveTimers edited). timeout (snd p) = fst q"
    by (simp add: reg tos)
  note inst = disconnect_cancels_all_timers [of eve edited 60000 "''d1''"]
  have a: "map_of (timeouts (disconnect eve edited)) (timeout (snd ?e)) = None"
    using inst [THEN conjunct2, THEN conjunct1, THEN bspec, OF mem] .
  have b: "storeWrites (advance 60000 (disconnect eve edited)) = storeWrites edited"
    using inst [THEN conjunct2, THEN conjunct2, THEN conjunct2, THEN conjunct1, THEN mp, OF all] .
  have m: "''sE'' \<notin> set (members edited ''d1'')"
    by (simp add: edited_eq members_def joined2_eq)
  have w: "storeWrites edited = []"
    by (simp add: edited_eq joined2_eq)
  show ?thesis
    using a b m by (simp add: reg tos w)
qed

text \<open>
  C10. Neither handler looks at the document or at the rooms. For every socket, document
  id and state, a save-document issues the write of the given content; a text-change
  leaves a timeout pending that is due after the debounce interval and carries the given
  document id and content, records it in the registry, and the write is issued once that
  interval has passed. Access is decided in \<open>join_document\<close> alone.
\<close>

theorem save_and_edit_unchecked:
  "storeWrites (save_document s d c ok st) = storeWrites st @ [(d, c)]
   \<and> (nextTimeout st,
       \<lparr>fireAt = clock st + AUTO_SAVE_DEBOUNCE_MS, cb_documentId = d, cb_content = c,
        cb_userId = user_id s\<rparr>) \<in> set (timeouts (text_change s d delta c st))
   \<and> map_of (autoSaveTimers (text_change s d delta c st)) d =
       Some \<lparr>save_documentId = d, content = c, timeout = nextTimeout st\<rparr>
   \<and> (d, c) \<in> set (storeWrites (advance (clock st + AUTO_SAVE_DEBOUNCE_MS)
                                  (text_change s d delta c st)))"
proof -
  let ?p = "(nextTimeout st,
       \<lparr>fireAt = clock st + AUTO_SAVE_DEBOUNCE_MS, cb_documentId = d, cb_content = c,
        cb_userId = user_id s\<rparr>)"
  have 1: "?p \<in> set (timeouts (text_change s d delta c st))"
    by (simp add: text_change_eq)
  have "?p \<in> set (due (clock st + AUTO_SAVE_DEBOUNCE_MS) (text_change s d delta c st))"
    using 1 by (simp add: set_due)
  then have "(cb_documentId (snd ?p), cb_content (snd ?p)) \<in>
               set (storeWrites (advance (clock st + AUTO_SAVE_DEBOUNCE_MS)
                                  (text_change s d delta c st)))"
    unfolding advance_writes by force
  then have 3: "(d, c) \<in> set (storeWrites (advance (clock st + AUTO_SAVE_DEBOUNCE_MS)
                                  (text_change s d delta c st)))"
    by simp
  have 0: "storeWrites (save_document s d c ok st) = storeWrites st @ [(d, c)]"
    by (simp add: save_document_def socket_emit_def socket_to_emit_def Let_def)
  have 2: "map_of (autoSaveTimers (text_change s d delta c st)) d =
       Some \<lparr>save_documentId = d, content = c, timeout = nextTimeout st\<rparr>"
    by (simp add: text_change_eq update_conv')
  show ?thesis
    using 0 1 2 3 by (intro conjI)
qed

text \<open>
  Eve is neither owner nor collaborator of \<open>doc1\<close> and is not in its room; her join is
  refused, and her save and her edit of \<open>d1\<close> are written all the same.
\<close>

theorem save_and_edit_unchecked_witness:
  "\<not> hasAccess doc1 (user_id eve) \<and> ''sE'' \<notin> set (members joined2 ''d1'')
   \<and> storeWrites (save_document eve ''d1'' ''gone'' True
                    (join_document eve ''d1'' ''Eve'' (Resolved (Some doc1)) 3 joined2)) =
       [(''d1'', ''gone'')]
   \<and> (''d1'', ''gone'') \<in> set (storeWrites (advance 30000
                                   (text_change eve ''d1'' ''-all'' ''gone'' joined2)))"
proof -
  let ?st = "join_document eve ''d1'' ''Eve'' (Resolved (Some doc1)) 3 joined2"
  have w: "storeWrites ?st = []"
    by (simp add: join_denied [OF eve_no_access] joined2_eq)
  have a: "storeWrites (save_document eve ''d1'' ''gone'' True ?st) =
             storeWrites ?st @ [(''d1'', ''gone'')]"
    using save_and_edit_unchecked [of eve "''d1''" "''gone''" True ?st] by (rule conjunct1)
  have b: "(''d1'', ''gone'') \<in> set (storeWrites
             (advance (clock joined2 + AUTO_SAVE_DEBOUNCE_MS)
                (text_change eve ''d1'' ''-all'' ''gone'' joined2)))"
    using save_and_edit_unchecked [of eve "''d1''" "''gone''" True joined2 "''-all''"]
    by (elim conjE)
  have c: "clock joined2 + AUTO_SAVE_DEBOUNCE_MS = 30000"
    by (simp add: joined2_eq AUTO_SAVE_DEBOUNCE_MS_def)
  show ?thesis
    using a b unfolding c w by (simp add: eve_no_access joined2_members)
qed

subsection \<open>Leaving and disconnecting: the rooms\<close>

lemma handleUserLeave_rooms:
  "documentRooms (handleUserLeave s d st) =
     (case map_of (documentRooms st) d of
        None \<Rightarrow> documentRooms st
      | Some room \<Rightarrow>
          if AList.delete (socket_id s) (users room) = []
          then AList.delete d (documentRooms st)
          else AList.update d (room\<lparr>users := AList.delete (socket_id s) (users room)\<rparr>)
                 (documentRooms st))"
proof (cases "map_of (documentRooms st) d")
  case None
  then show ?thesis by (simp add: handleUserLeave_def socket_leave_def)
next
  case (Some room)
  show ?thesis
  proof (cases "map_of (users room) (socket_id s)")
    case None
    then have "socket_id s \<notin> fst ` set (users room)"
      by (simp add: map_of_eq_None_iff)
    then have "AList.delete (socket_id s) (users room) = users room"
      by simp
    with Some None show ?thesis
      by (simp add: handleUserLeave_def socket_leave_def)
  next
    case (Some u)
    with \<open>map_of (documentRooms st) d = Some room\<close> show ?thesis
      by (simp add: handleUserLeave_def socket_leave_def socket_to_emit_def)
  qed
qed

lemma handleUserLeave_sio:
  "sioRooms (handleUserLeave s d st) = (sioRooms st)(d := sioRooms st d - {socket_id s})"
  by (simp add: handleUserLeave_def socket_leave_def socket_to_emit_def
        split: option.splits prod.splits)

lemma handleUserLeave_no_empty:
  "no_empty_rooms st \<Longrightarrow> no_empty_rooms (handleUserLeave s d st)"
  by (auto simp: no_empty_rooms_def handleUserLeave_rooms list_all_update list_all_delete
           split: option.splits)

lemma handleUserLeave_other:
  "d' \<noteq> d \<Longrightarrow>
   map_of (documentRooms (handleUserLeave s d' st)) d = map_of (documentRooms st) d"
  by (simp add: handleUserLeave_rooms update_conv' delete_conv' split: option.splits)

lemma handleUserLeave_absent:
  "map_of (documentRooms st) d = None \<Longrightarrow>
   map_of (documentRooms (handleUserLeave s d' st)) d = None"
  by (cases "d' = d") (simp_all add: handleUserLeave_other, simp add: handleUserLeave_rooms)

lemma handleUserLeave_last:
  "set (members st d) = {socket_id s} \<Longrightarrow>
   map_of (documentRooms (handleUserLeave s d st)) d = None"
  by (auto simp: members_def handleUserLeave_rooms delete_only_key delete_conv'
        split: option.splits)

lemma members_handleUserLeave:
  "set (members (handleUserLeave s d' st) d) =
     (if d' = d then set (members st d) - {socket_id s} else set (members st d))"
proof (cases "d' = d")
  case False
  then show ?thesis by (simp add: members_def handleUserLeave_other)
next
  case True
  show ?thesis
  proof (cases "map_of (documentRooms st) d")
    case None
    with True show ?thesis by (simp add: members_def handleUserLeave_rooms)
  next
    case (Some room)
    show ?thesis
    proof (cases "AList.delete (socket_id s) (users room) = []")
      case True
      then have "fst ` set (users room) - {socket_id s} = {}"
        by (metis delete_keys empty_set list.map_disc_iff list.set_map set_removeAll)
      with \<open>d' = d\<close> Some True show ?thesis
        by (simp add: members_def handleUserLeave_rooms delete_conv')
    next
      case False
      with \<open>d' = d\<close> Some show ?thesis
        by (simp add: members_def handleUserLeave_rooms update_conv' delete_keys)
    qed
  qed
qed

lemma leave_rooms_no_empty:
  "no_empty_rooms st \<Longrightarrow> no_empty_rooms (leave_rooms s xs st)"
  by (induction xs arbitrary: st) (simp_all add: handleUserLeave_no_empty)

lemma leave_rooms_absent:
  "map_of (documentRooms st) d = None \<Longrightarrow>
   map_of (documentRooms (leave_rooms s xs st)) d = None"
  by (induction xs arbitrary: st) (simp_all add: handleUserLeave_absent)

lemma leave_rooms_last:
  "map_of xs d = Some room \<Longrightarrow> map_of (documentRooms st) d = Some room \<Longrightarrow>
   fst ` set (users room) = {socket_id s} \<Longrightarrow>
   map_of (documentRooms (leave_rooms s xs st)) d = None"
proof (induction xs arbitrary: st)
  case Nil
  then show ?case by simp
next
  case (Cons p ps)
  show ?case
  proof (cases "fst p = d")
    case True
    with Cons.prems have p: "snd p = room"
      by (cases p) simp
    have k: "map_of (users room) (socket_id s) \<noteq> None"
      using Cons.prems(3) by (simp add: map_of_eq_None_iff)
    have "set (members st d) = {socket_id s}"
      using Cons.prems by (simp add: members_def)
    then have "map_of (documentRooms (handleUserLeave s d st)) d = None"
      by (rule handleUserLeave_last)
    with True p k show ?thesis
      by (simp add: leave_rooms_absent)
  next
    case False
    with Cons.prems have m: "map_of ps d = Some room"
      by (cases p) simp
    show ?thesis
      using False Cons.IH [OF m _ Cons.prems(3)] Cons.prems(2)
      by (simp add: handleUserLeave_other)
  qed
qed

lemma disconnect_rooms:
  "documentRooms (disconnect s st) =
     documentRooms (leave_rooms s (documentRooms st)
                      (socket_close s st))"
  by (simp add: disconnect_def disconnect_handler_def Let_def clear_timers_frame)

lemma disconnect_last:
  assumes "set (members st d) = {socket_id s}"
  shows "map_of (documentRooms (disconnect s st)) d = None"
proof (cases "map_of (documentRooms st) d")
  case None
  with assms show ?thesis by (simp add: members_def)
next
  case (Some room)
  with assms have k: "fst ` set (users room) = {socket_id s}"
    by (simp add: members_def)
  show ?thesis
    unfolding disconnect_rooms
    by (rule leave_rooms_last [OF Some _ k]) (simp add: Some)
qed

lemma join_no_empty:
  "no_empty_rooms st \<Longrightarrow> no_empty_rooms (join_document s d n found r st)"
proof (cases found)
  case Rejected
  then show "no_empty_rooms st \<Longrightarrow> ?thesis"
    by (simp add: join_document_def socket_emit_def no_empty_rooms_def)
next
  case (Resolved o1)
  show "no_empty_rooms st \<Longrightarrow> ?thesis"
  proof (cases o1)
    case None
    with Resolved show "no_empty_rooms st \<Longrightarrow> ?thesis"
      by (simp add: join_not_found no_empty_rooms_def)
  next
    case (Some doc)
    with Resolved show "no_empty_rooms st \<Longrightarrow> ?thesis"
      by (cases "hasAccess doc (user_id s)")
         (simp_all add: join_admitted join_denied no_empty_rooms_def list_all_update)
  qed
qed

lemma step_no_empty: "no_empty_rooms st \<Longrightarrow> no_empty_rooms (step e st)"
proof (cases e)
  case (Connection s)
  then show "no_empty_rooms st \<Longrightarrow> ?thesis"
    by (simp add: no_empty_rooms_def)
next
  case (JoinDocument s d n found r)
  then show "no_empty_rooms st \<Longrightarrow> ?thesis"
    by (simp add: join_no_empty)
next
  case (TextChangeEv s d delta c)
  then show "no_empty_rooms st \<Longrightarrow> ?thesis"
    by (simp add: text_change_eq no_empty_rooms_def)
next
  case (CursorMoveEv s d p)
  then show "no_empty_rooms st \<Longrightarrow> ?thesis"
    by (simp add: cursor_move_def socket_to_emit_def no_empty_rooms_def split: option.splits)
next
  case (SaveDocument s d c ok)
  then show "no_empty_rooms st \<Longrightarrow> ?thesis"
    by (simp add: save_document_def socket_emit_def socket_to_emit_def no_empty_rooms_def
          Let_def)
next
  case (LeaveDocument s d)
  then show "no_empty_rooms st \<Longrightarrow> ?thesis"
    by (simp add: leave_document_def handleUserLeave_no_empty)
next
  case (Disconnect s)
  assume "no_empty_rooms st"
  then have "no_empty_rooms (socket_close s st)"
    by (simp add: no_empty_rooms_def)
  then have "no_empty_rooms (leave_rooms s (documentRooms st)
               (socket_close s st))"
    by (rule leave_rooms_no_empty)
  with Disconnect show ?thesis
    by (simp add: no_empty_rooms_def disconnect_rooms)
next
  case (Elapse ms)
  then show "no_empty_rooms st \<Longrightarrow> ?thesis"
    by (simp add: no_empty_rooms_def advance_frame)
next
  case (AutoSaveSettled d ok)
  then show "no_empty_rooms st \<Longrightarrow> ?thesis"
    by (simp add: autosave_settled_def no_empty_rooms_def Let_def)
qed

lemma run_no_empty: "no_empty_rooms st \<Longrightarrow> no_empty_rooms (run es st)"
  unfolding run_def by (induction es arbitrary: st) (simp_all add: step_no_empty)

lemma init_no_empty: "no_empty_rooms init"
  by (simp add: no_empty_rooms_def init_def)

text \<open>
  C5. No step leaves a room with an empty roster in the directory if there was none
  before, and at the start there is none. A leave-document or a disconnect by the only
  member of a room deletes the room in that step. A join that finds no room for the
  document makes a room whose only member is the joiner, and the \<open>users-list\<close> it sends
  to the joiner is empty.
\<close>

theorem empty_room_never_persists:
  "no_empty_rooms init
   \<and> (no_empty_rooms st \<longrightarrow> no_empty_rooms (step e st))
   \<and> (set (members st d) = {socket_id s} \<longrightarrow>
        map_of (documentRooms (leave_document s d st)) d = None \<and>
        map_of (documentRooms (disconnect s st)) d = None)
   \<and> (map_of (documentRooms st) d = None \<and> hasAccess doc (user_id s) \<longrightarrow>
        members (join_document s d n (Resolved (Some doc)) r st) d = [socket_id s] \<and>
        last (outbox (join_document s d n (Resolved (Some doc)) r st)) =
          ({socket_id s}, UsersList []))"
proof -
  have 3: "map_of (documentRooms st) d = None \<and> hasAccess doc (user_id s) \<longrightarrow>
        members (join_document s d n (Resolved (Some doc)) r st) d = [socket_id s] \<and>
        last (outbox (join_document s d n (Resolved (Some doc)) r st)) =
          ({socket_id s}, UsersList [])"
    by (simp add: join_admitted members_def room_of_def update_conv' new_presence_def)
  show ?thesis
    using 3
    by (simp add: init_no_empty step_no_empty leave_document_def handleUserLeave_last
          disconnect_last)
qed

theorem empty_room_never_persists_witness:
  "set (members (leave_document bob ''d1'' joined2) ''d1'') = {socket_id alice}
   \<and> map_of (documentRooms (leave_document alice ''d1''
                               (leave_document bob ''d1'' joined2))) ''d1'' = None
   \<and> map_of (documentRooms (disconnect alice (leave_document bob ''d1'' joined2))) ''d1'' = None
   \<and> last (outbox (join_document bob ''d1'' ''Bob'' (Resolved (Some doc1)) 2
                     (disconnect alice (leave_document bob ''d1'' joined2)))) =
       ({''sB''}, UsersList [])"
proof -
  let ?st = "leave_document bob ''d1'' joined2"
  have m: "set (members ?st ''d1'') = {socket_id alice}"
    by (auto simp: leave_document_def members_handleUserLeave joined2_members alice_def bob_def)
  note inst = empty_room_never_persists [of ?st _ "''d1''" alice]
  have a: "map_of (documentRooms (leave_document alice ''d1'' ?st)) ''d1'' = None \<and>
           map_of (documentRooms (disconnect alice ?st)) ''d1'' = None"
    using inst [THEN conjunct2, THEN conjunct2, THEN conjunct1, THEN mp, OF m] .
  have pre: "map_of (documentRooms (disconnect alice ?st)) ''d1'' = None \<and>
             hasAccess doc1 (user_id bob)"
    using a bob_access by simp
  have b: "last (outbox (join_document bob ''d1'' ''Bob'' (Resolved (Some doc1)) 2
                     (disconnect alice ?st))) = ({socket_id bob}, UsersList [])"
    using empty_room_never_persists [of "disconnect alice ?st" _ "''d1''" bob doc1 "''Bob''" 2,
            THEN conjunct2, THEN conjunct2, THEN conjunct2, THEN mp, OF pre]
    by (rule conjunct2)
  show ?thesis
    using m a b by (simp add: bob_def)
qed

subsection \<open>Rosters and transport rooms stay in step\<close>

text \<open>
  The lemmas about who receives a relay are stated for a room whose roster agrees with
  the transport's room. It holds at the start, and every step keeps that agreement for
  all rooms at once, but one: the rest of a join that runs after its socket has closed.
\<close>

lemma members_sioRooms [simp]: "members (st\<lparr>sioRooms := f\<rparr>) d = members st d"
  by (simp add: members_def)

lemma synced_handleUserLeave:
  "synced st d \<Longrightarrow> synced (handleUserLeave s d' st) d"
  by (auto simp: synced_def members_handleUserLeave handleUserLeave_sio)

lemma pruned_handleUserLeave:
  assumes "\<forall>d. sioRooms st d = set (members st d) - {socket_id s}"
  shows "\<forall>d. sioRooms (handleUserLeave s d' st) d =
              set (members (handleUserLeave s d' st) d) - {socket_id s}"
  using assms by (auto simp: members_handleUserLeave handleUserLeave_sio)

lemma pruned_leave_rooms:
  "\<forall>d. sioRooms st d = set (members st d) - {socket_id s} \<Longrightarrow>
   \<forall>d. sioRooms (leave_rooms s xs st) d = set (members (leave_rooms s xs st) d) - {socket_id s}"
proof (induction xs arbitrary: st)
  case Nil
  then show ?case by simp
next
  case (Cons p ps)
  show ?case
    using Cons.IH [OF pruned_handleUserLeave [OF Cons.prems]] Cons.IH [OF Cons.prems]
    by simp
qed

lemma map_of_key_iff: "map_of al k \<noteq> None \<longleftrightarrow> k \<in> fst ` set al"
  by (simp add: map_of_eq_None_iff)

lemma leave_rooms_removes:
  "\<forall>d. socket_id s \<in> set (members st d) \<longrightarrow>
        (\<exists>room. map_of xs d = Some room \<and> map_of (documentRooms st) d = Some room) \<Longrightarrow>
   socket_id s \<notin> set (members (leave_rooms s xs st) d)"
proof (induction xs arbitrary: st)
  case Nil
  then show ?case by auto
next
  case (Cons p ps)
  let ?st = "if map_of (users (snd p)) (socket_id s) \<noteq> None
             then handleUserLeave s (fst p) st else st"
  have "\<forall>d. socket_id s \<in> set (members ?st d) \<longrightarrow>
          (\<exists>room. map_of ps d = Some room \<and> map_of (documentRooms ?st) d = Some room)"
  proof (intro allI impI)
    fix d
    assume m: "socket_id s \<in> set (members ?st d)"
    show "\<exists>room. map_of ps d = Some room \<and> map_of (documentRooms ?st) d = Some room"
    proof (cases "map_of (users (snd p)) (socket_id s) \<noteq> None")
      case True
      with m have ne: "fst p \<noteq> d" and m0: "socket_id s \<in> set (members st d)"
        by (auto simp: members_handleUserLeave split: if_splits)
      from Cons.prems m0 obtain room where
        "map_of (p # ps) d = Some room" "map_of (documentRooms st) d = Some room"
        by blast
      with True ne show ?thesis
        by (cases p) (simp add: handleUserLeave_other)
    next
      case False
      with m have m0: "socket_id s \<in> set (members st d)"
        by simp
      from Cons.prems m0 obtain room where
        r: "map_of (p # ps) d = Some room" "map_of (documentRooms st) d = Some room"
        by blast
      have "fst p \<noteq> d"
      proof
        assume "fst p = d"
        with r have "snd p = room" by (cases p) simp
        moreover from m0 r(2) have "socket_id s \<in> fst ` set (users room)"
          by (simp add: members_def)
        ultimately have "map_of (users (snd p)) (socket_id s) \<noteq> None"
          by (simp only: map_of_key_iff)
        with False show False by simp
      qed
      with r False show ?thesis
        by (cases p) simp
    qed
  qed
  from Cons.IH [OF this] show ?case by simp
qed

lemma synced_disconnect:
  assumes "\<forall>d. synced st d"
  shows "synced (disconnect s st) d"
proof -
  let ?st0 = "socket_close s st"
  let ?st1 = "leave_rooms s (documentRooms st) ?st0"
  have "\<forall>d. sioRooms ?st0 d = set (members ?st0 d) - {socket_id s}"
    using assms by (simp add: synced_def)
  then have p: "sioRooms ?st1 d = set (members ?st1 d) - {socket_id s}"
    using pruned_leave_rooms by blast
  have "\<forall>d. socket_id s \<in> set (members ?st0 d) \<longrightarrow>
          (\<exists>room. map_of (documentRooms st) d = Some room \<and>
                  map_of (documentRooms ?st0) d = Some room)"
    by (simp add: members_def split: option.splits) (metis option.exhaust)
  then have "socket_id s \<notin> set (members ?st1 d)"
    by (rule leave_rooms_removes)
  with p have "sioRooms ?st1 d = set (members ?st1 d)"
    by simp
  then show ?thesis
    by (simp add: synced_def members_def disconnect_def disconnect_handler_def Let_def
          clear_timers_frame)
qed

lemma step_synced:
  assumes "\<forall>d. synced st d" and "join_live e st"
  shows "synced (step e st) d"
proof (cases e)
  case (Connection s)
  with assms(1) show ?thesis by (simp add: synced_def)
next
  case (JoinDocument s d' n found r)
  with assms show ?thesis by (simp add: synced_join join_live_def)
next
  case (TextChangeEv s d' delta c)
  with assms(1) show ?thesis by (simp add: text_change_eq synced_def members_def)
next
  case (CursorMoveEv s d' p)
  with assms(1) show ?thesis
    by (simp add: cursor_move_def socket_to_emit_def synced_def members_def
          split: option.splits)
next
  case (SaveDocument s d' c ok)
  with assms(1) show ?thesis
    by (simp add: save_document_def socket_emit_def socket_to_emit_def synced_def
          members_def Let_def)
next
  case (LeaveDocument s d')
  with assms(1) show ?thesis by (simp add: leave_document_def synced_handleUserLeave)
next
  case (Disconnect s)
  with assms(1) show ?thesis by (simp add: synced_disconnect)
next
  case (Elapse ms)
  with assms(1) show ?thesis by (simp add: synced_def members_def advance_frame)
next
  case (AutoSaveSettled d' ok)
  with assms(1) show ?thesis by (simp add: autosave_settled_def synced_def members_def Let_def)
qed

lemma run_synced: "\<forall>d. synced st d \<Longrightarrow> live_run es st \<Longrightarrow> synced (run es st) d"
proof (induction es arbitrary: st d)
  case Nil
  then show ?case by (simp add: run_def)
next
  case (Cons e es)
  have "\<forall>d. synced (step e st) d"
    using Cons.prems by (simp add: step_synced)
  from Cons.IH [OF this] Cons.prems(2) show ?case by (simp add: run_def)
qed

lemma live_run_synced: "live_run es init \<Longrightarrow> synced (run es init) d"
  by (rule run_synced) (simp_all add: init_synced)

subsection \<open>Presences stay under their own socket id\<close>

lemma room_of_handleUserLeave:
  "users (room_of (handleUserLeave s d' st) d) =
     (if d' = d then AList.delete (socket_id s) (users (room_of st d))
      else users (room_of st d))"
proof (cases "d' = d")
  case False
  then show ?thesis by (simp add: room_of_def handleUserLeave_other)
next
  case True
  then show ?thesis
    by (auto simp: room_of_def handleUserLeave_rooms update_conv' delete_conv'
          split: option.splits)
qed

lemma roster_ok_handleUserLeave:
  "roster_ok st d \<Longrightarrow> roster_ok (handleUserLeave s d' st) d"
  by (simp add: roster_ok_def room_of_handleUserLeave list_all_delete)

lemma roster_ok_leave_rooms:
  "roster_ok st d \<Longrightarrow> roster_ok (leave_rooms s xs st) d"
  by (induction xs arbitrary: st) (simp_all add: roster_ok_handleUserLeave)

lemma step_roster_ok: "roster_ok st d \<Longrightarrow> roster_ok (step e st) d"
proof (cases e)
  case (Connection s)
  then show "roster_ok st d \<Longrightarrow> ?thesis"
    by (simp add: roster_ok_def)
next
  case (JoinDocument s d' n found r)
  then show "roster_ok st d \<Longrightarrow> ?thesis"
    by (simp add: roster_ok_join)
next
  case (TextChangeEv s d' delta c)
  then show "roster_ok st d \<Longrightarrow> ?thesis"
    by (simp add: roster_ok_def room_of_def text_change_eq)
next
  case (CursorMoveEv s d' p)
  then show "roster_ok st d \<Longrightarrow> ?thesis"
    by (simp add: roster_ok_def room_of_def cursor_move_def socket_to_emit_def
          split: option.splits)
next
  case (SaveDocument s d' c ok)
  then show "roster_ok st d \<Longrightarrow> ?thesis"
    by (simp add: roster_ok_def room_of_def save_document_def socket_emit_def
          socket_to_emit_def Let_def)
next
  case (LeaveDocument s d')
  then show "roster_ok st d \<Longrightarrow> ?thesis"
    by (simp add: leave_document_def roster_ok_handleUserLeave)
next
  case (Disconnect s)
  assume "roster_ok st d"
  then have "roster_ok (socket_close s st) d"
    by (simp add: roster_ok_def room_of_def)
  then have "roster_ok (leave_rooms s (documentRooms st)
               (socket_close s st)) d"
    by (rule roster_ok_leave_rooms)
  with Disconnect show ?thesis
    by (simp add: roster_ok_def room_of_def disconnect_rooms)
next
  case (Elapse ms)
  then show "roster_ok st d \<Longrightarrow> ?thesis"
    by (simp add: roster_ok_def room_of_def advance_frame)
next
  case (AutoSaveSettled d' ok)
  then show "roster_ok st d \<Longrightarrow> ?thesis"
    by (simp add: roster_ok_def room_of_def autosave_settled_def Let_def)
qed

lemma run_roster_ok: "roster_ok st d \<Longrightarrow> roster_ok (run es st) d"
  unfolding run_def by (induction es arbitrary: st) (simp_all add: step_roster_ok)

lemma reachable_roster_ok: "roster_ok (run es init) d"
  by (rule run_roster_ok) (rule init_roster_ok)

subsection \<open>The runs that leave a closed socket in a roster\<close>

lemma ghost_state:
  "run ghost_trace init =
     \<lparr>documentRooms =
        [(''d1'', \<lparr>documentId = ''d1'',
                  users = [(''sA'', \<lparr>socketId = ''sA'', userId = ''u1'', userName = ''Ann'',
                                     color = ''#4ECDC4''\<rparr>),
                           (''sB'', \<lparr>socketId = ''sB'', userId = ''u2'', userName = ''Bob'',
                                     color = ''#45B7D1''\<rparr>)]\<rparr>)],
      autoSaveTimers = [],
      sioRooms = (\<lambda>_. {})(''d1'' := {''sA''}),
      outbox = [({}, UserJoined ''u1'' ''Ann'' ''#4ECDC4''), ({''sA''}, UsersList []),
                ({''sA''}, UserJoined ''u2'' ''Bob'' ''#45B7D1''),
                ({''sB''}, UsersList [\<lparr>socketId = ''sA'', userId = ''u1'', userName = ''Ann'',
                                     color = ''#4ECDC4''\<rparr>])],
      clock = 0, timeouts = [], nextTimeout = 0, storeWrites = [], inFlight = [],
      connected = {''sA''}\<rparr>"
  unfolding ghost_trace_def run_def
  apply (simp add: join_admitted [OF alice_access] join_admitted [OF bob_access]
           room_of_def new_presence_def color1 color2 disconnect_def disconnect_handler_def
           update_conv')
  apply (simp add: init_def alice_def bob_def connection_def socket_close_def)
  apply (auto simp add: fun_eq_iff)
  done

lemma ghost_first_state:
  "run ghost_first_trace init =
     \<lparr>documentRooms =
        [(''d1'', \<lparr>documentId = ''d1'',
                  users = [(''sA'', \<lparr>socketId = ''sA'', userId = ''u1'', userName = ''Ann'',
                                     color = ''#4ECDC4''\<rparr>),
                           (''sB'', \<lparr>socketId = ''sB'', userId = ''u2'', userName = ''Bob'',
                                     color = ''#45B7D1''\<rparr>)]\<rparr>)],
      autoSaveTimers = [],
      sioRooms = (\<lambda>_. {})(''d1'' := {''sB''}),
      outbox = [({}, UserJoined ''u1'' ''Ann'' ''#4ECDC4''), ({''sA''}, UsersList []),
                ({}, UserJoined ''u2'' ''Bob'' ''#45B7D1''),
                ({''sB''}, UsersList [\<lparr>socketId = ''sA'', userId = ''u1'', userName = ''Ann'',
                                     color = ''#4ECDC4''\<rparr>])],
      clock = 0, timeouts = [], nextTimeout = 0, storeWrites = [], inFlight = [],
      connected = {''sB''}\<rparr>"
  unfolding ghost_first_trace_def run_def
  apply (simp add: join_admitted [OF alice_access] join_admitted [OF bob_access]
           room_of_def new_presence_def color1 color2 disconnect_def disconnect_handler_def
           update_conv')
  apply (simp add: init_def alice_def bob_def connection_def socket_close_def)
  apply (auto simp add: fun_eq_iff)
  done

text \<open>
  C2, on the code. After the run \<open>ghost_trace\<close> the room of \<open>d1\<close> has two members, Alice
  and Bob, and Alice is in the transport's room alone. Her text-change is relayed to
  nobody, not to the one other member.
\<close>

theorem ghost_text_change_reaches_nobody:
  "members (run ghost_trace init) ''d1'' = [''sA'', ''sB'']
   \<and> outbox (text_change alice ''d1'' ''+Hello'' ''Hello'' (run ghost_trace init)) =
       outbox (run ghost_trace init) @ [({}, TextChange ''+Hello'' ''Hello'' ''u1'')]"
  by (simp add: text_change_eq ghost_state members_def alice_def)

text \<open>
  C9, on the code. In the same state Alice has a presence in the room and so has Bob;
  her cursor-move is relayed to nobody.
\<close>

theorem ghost_cursor_move_reaches_nobody:
  "presence (run ghost_trace init) ''d1'' ''sB'' =
     Some \<lparr>socketId = ''sB'', userId = ''u2'', userName = ''Bob'', color = ''#45B7D1''\<rparr>
   \<and> outbox (cursor_move alice ''d1'' 7 (run ghost_trace init)) =
       outbox (run ghost_trace init) @ [({}, CursorMove ''u1'' ''Ann'' ''#4ECDC4'' 7)]"
  by (simp add: cursor_move_def socket_to_emit_def ghost_state presence_def alice_def)

text \<open>
  C7, on the code. In the run \<open>ghost_first_trace\<close> Alice joins, then Bob joins. Alice is a
  member of the room when Bob joins, as the \<open>users-list\<close> sent to Bob shows, but the
  \<open>user-joined\<close> for Bob is addressed to nobody.
\<close>

theorem ghost_member_not_told_of_join:
  "members (run (butlast ghost_first_trace) init) ''d1'' = [''sA'']
   \<and> outbox (run ghost_first_trace init) =
       outbox (run (butlast ghost_first_trace) init) @
         [({}, UserJoined ''u2'' ''Bob'' ''#45B7D1''),
          ({''sB''}, UsersList [\<lparr>socketId = ''sA'', userId = ''u1'', userName = ''Ann'',
                                  color = ''#4ECDC4''\<rparr>])]"
proof -
  have b: "run (butlast ghost_first_trace) init =
     \<lparr>documentRooms =
        [(''d1'', \<lparr>documentId = ''d1'',
                  users = [(''sA'', \<lparr>socketId = ''sA'', userId = ''u1'', userName = ''Ann'',
                                     color = ''#4ECDC4''\<rparr>)]\<rparr>)],
      autoSaveTimers = [],
      sioRooms = (\<lambda>_. {}),
      outbox = [({}, UserJoined ''u1'' ''Ann'' ''#4ECDC4''), ({''sA''}, UsersList [])],
      clock = 0, timeouts = [], nextTimeout = 0, storeWrites = [], inFlight = [],
      connected = {''sB''}\<rparr>"
    unfolding ghost_first_trace_def run_def
    apply (simp add: join_admitted [OF alice_access] room_of_def new_presence_def color1
             disconnect_def disconnect_handler_def)
    apply (simp add: init_def alice_def bob_def connection_def socket_close_def)
    apply (auto simp add: fun_eq_iff)
    done
  show ?thesis
    by (simp add: ghost_first_state b members_def)
qed

text \<open>
  Without such a run the rosters and the transport's rooms agree, and then the relays
  and the \<open>user-joined\<close> reach every other member (\<open>text_change_relay\<close>,
  \<open>cursor_move_relay\<close>, \<open>join_outbox\<close>).
\<close>

subsection \<open>The debounce\<close>

lemma pending_for_text_change:
  assumes "registry_ok st d"
  shows "pending_for (text_change s d delta c st) d =
           [(nextTimeout st,
             \<lparr>fireAt = clock st + AUTO_SAVE_DEBOUNCE_MS, cb_documentId = d, cb_content = c,
              cb_userId = user_id s\<rparr>)]"
proof (cases "map_of (autoSaveTimers st) d")
  case None
  with assms have "pending_for st d = []"
    by (cases "pending_for st d") (simp_all add: registry_ok_def)
  with None show ?thesis
    by (simp add: text_change_eq pending_for_def)
next
  case (Some e)
  with assms have "list_all (\<lambda>p. fst p = timeout e) (pending_for st d)"
    by (simp add: registry_ok_def eq_commute)
  then have "filter (\<lambda>p. cb_documentId (snd p) = d) (AList.delete (timeout e) (timeouts st)) = []"
    by (auto simp: pending_for_def delete_filter list_all_iff filter_empty_conv) blast
  with Some show ?thesis
    by (simp add: text_change_eq pending_for_def)
qed

lemma registry_ok_text_change:
  assumes "registry_ok st d"
  shows "registry_ok (text_change s d delta c st) d"
  unfolding registry_ok_def pending_for_text_change [OF assms]
  by (simp add: text_change_eq update_conv')

lemma timers_wf_text_change:
  assumes "timers_wf st"
  shows "timers_wf (text_change s d delta c st)"
proof -
  have a: "distinct (map fst ts) \<Longrightarrow> list_all (\<lambda>p. fst p < n) ts \<Longrightarrow>
        distinct (map fst (ts @ [(n, x)])) \<and> list_all (\<lambda>p. fst p < Suc n) (ts @ [(n, x)])"
    for ts :: "(nat \<times> Timeout) list" and n x
    by (auto simp: list_all_iff less_Suc_eq)
  have b: "distinct (map fst (AList.delete h (timeouts st))) \<and>
           list_all (\<lambda>p. fst p < nextTimeout st) (AList.delete h (timeouts st))" for h
    using assms by (simp add: timers_wf_def distinct_delete list_all_delete)
  show ?thesis
    using assms a b unfolding timers_wf_def text_change_eq
    by (cases "map_of (autoSaveTimers st) d") simp_all
qed

lemma writes_to_text_change [simp]: "writes_to (text_change s d' delta c st) d = writes_to st d"
  by (simp add: writes_to_def text_change_eq)

lemma armed_text_change:
  "timers_wf st \<Longrightarrow> registry_ok st d \<Longrightarrow> armed (text_change s d delta c st) d c"
  unfolding armed_def
  by (simp add: timers_wf_text_change registry_ok_text_change pending_for_text_change)
     (simp add: text_change_eq)

lemma advance_timeouts_wf:
  assumes "timers_wf st"
  shows "timeouts (advance t st) = filter (\<lambda>q. \<not> fireAt (snd q) \<le> t) (timeouts st)"
proof -
  have "fst q \<in> fst ` set (due t st) \<longleftrightarrow> fireAt (snd q) \<le> t"
    if "q \<in> set (timeouts st)" for q
  proof
    assume "fst q \<in> fst ` set (due t st)"
    then obtain p where p: "p \<in> set (timeouts st)" "fireAt (snd p) \<le> t" "fst p = fst q"
      by (auto simp: set_due)
    with that assms have "p = q"
      by (metis eq_key_imp_eq_value prod.collapse timers_wf_def)
    with p show "fireAt (snd q) \<le> t" by simp
  next
    assume "fireAt (snd q) \<le> t"
    with that show "fst q \<in> fst ` set (due t st)"
      by (auto simp: set_due)
  qed
  then have "filter (\<lambda>q. fst q \<notin> fst ` set (due t st)) (timeouts st) =
             filter (\<lambda>q. \<not> fireAt (snd q) \<le> t) (timeouts st)"
    by (intro filter_cong refl) simp
  then show ?thesis
    unfolding advance_timeouts .
qed

lemma pending_for_advance:
  "timers_wf st \<Longrightarrow>
   pending_for (advance t st) d = filter (\<lambda>q. \<not> fireAt (snd q) \<le> t) (pending_for st d)"
  by (auto simp: pending_for_def advance_timeouts_wf intro: filter_cong)

lemma timers_wf_advance: "timers_wf st \<Longrightarrow> timers_wf (advance t st)"
  by (simp add: timers_wf_def advance_timeouts_wf advance_frame distinct_map_filter
        list_all_iff)

lemma registry_ok_advance: "timers_wf st \<Longrightarrow> registry_ok st d \<Longrightarrow> registry_ok (advance t st) d"
  by (simp add: registry_ok_def pending_for_advance advance_frame list_all_iff)

lemma writes_to_advance:
  "writes_to (advance t st) d =
     writes_to st d @
       map (\<lambda>p. cb_content (snd p))
         (sort_key (\<lambda>p. fireAt (snd p)) (filter (\<lambda>p. fireAt (snd p) \<le> t) (pending_for st d)))"
proof -
  have "filter (\<lambda>w. fst w = d)
          (map (\<lambda>p. (cb_documentId (snd p), cb_content (snd p))) ps) =
        map (\<lambda>p. (cb_documentId (snd p), cb_content (snd p)))
          (filter (\<lambda>p. cb_documentId (snd p) = d) ps)" for ps :: "(nat \<times> Timeout) list"
    by (induction ps) auto
  then show ?thesis
    by (simp add: writes_to_def advance_writes due_def pending_for_def filter_sort
          comp_def conj_commute)
qed

text \<open>While less than a debounce interval passes, an armed save stays as it is.\<close>

lemma armed_wait:
  assumes "armed st d c" and "gap < AUTO_SAVE_DEBOUNCE_MS"
  shows "timers_wf (advance (clock st + gap) st)"
    and "registry_ok (advance (clock st + gap) st) d"
    and "writes_to (advance (clock st + gap) st) d = writes_to st d"
proof -
  from assms(1) obtain p where p: "pending_for st d = [p]"
    and f: "fireAt (snd p) = clock st + AUTO_SAVE_DEBOUNCE_MS"
    and wf: "timers_wf st" and ok: "registry_ok st d"
    by (auto simp: armed_def split: list.splits)
  show "timers_wf (advance (clock st + gap) st)"
    using wf by (rule timers_wf_advance)
  show "registry_ok (advance (clock st + gap) st) d"
    using wf ok by (rule registry_ok_advance)
  show "writes_to (advance (clock st + gap) st) d = writes_to st d"
    using assms(2) by (simp add: writes_to_advance p f)
qed

lemma armed_next_edit:
  assumes "armed st d c" and "gap < AUTO_SAVE_DEBOUNCE_MS"
  shows "armed (text_change s d delta c' (advance (clock st + gap) st)) d c'"
    and "writes_to (text_change s d delta c' (advance (clock st + gap) st)) d = writes_to st d"
  using armed_wait [OF assms] by (simp_all add: armed_text_change)

lemma burst_armed:
  "armed st d c \<Longrightarrow> list_all (\<lambda>e. fst e < AUTO_SAVE_DEBOUNCE_MS) es \<Longrightarrow>
   armed (burst d es st) d (last (c # map (\<lambda>e. snd (snd (snd e))) es)) \<and>
   writes_to (burst d es st) d = writes_to st d"
proof (induction es arbitrary: st c)
  case Nil
  then show ?case by simp
next
  case (Cons e es)
  obtain gap s delta c' where e: "e = (gap, s, delta, c')"
    by (cases e)
  with Cons.prems have g: "gap < AUTO_SAVE_DEBOUNCE_MS"
    and r: "list_all (\<lambda>e. fst e < AUTO_SAVE_DEBOUNCE_MS) es"
    by simp_all
  let ?st = "text_change s d delta c' (advance (clock st + gap) st)"
  have a: "armed ?st d c'" and w: "writes_to ?st d = writes_to st d"
    using armed_next_edit [OF Cons.prems(1) g] by simp_all
  from Cons.IH [OF a r] w e show ?case
    by simp
qed

lemma armed_fires:
  assumes "armed st d c" and "clock st + AUTO_SAVE_DEBOUNCE_MS \<le> t"
  shows "writes_to (advance t st) d = writes_to st d @ [c]"
    and "pending_for (advance t st) d = []"
proof -
  from assms(1) obtain p where p: "pending_for st d = [p]"
    and f: "fireAt (snd p) = clock st + AUTO_SAVE_DEBOUNCE_MS"
    and c: "cb_content (snd p) = c" and wf: "timers_wf st"
    by (auto simp: armed_def split: list.splits)
  show "writes_to (advance t st) d = writes_to st d @ [c]"
    using assms(2) by (simp add: writes_to_advance p f c)
  show "pending_for (advance t st) d = []"
    using assms(2) by (simp add: pending_for_advance [OF wf] p f)
qed

text \<open>
  The debounce, where the registry knows the document's pending timeouts: after an edit
  and any further edits of the document, each less than a debounce interval after the
  one before it, and with only time passing in between and afterwards, the one write that
  follows is the content of the last edit, and no timeout of the document stays pending.
\<close>

lemma debounce_single_write:
  assumes "timers_wf st" and "registry_ok st d"
    and "list_all (\<lambda>e. fst e < AUTO_SAVE_DEBOUNCE_MS) es"
    and "clock (burst d es (text_change s d delta c st)) + AUTO_SAVE_DEBOUNCE_MS \<le> t"
  shows "writes_to (advance t (burst d es (text_change s d delta c st))) d =
           writes_to st d @ [last (c # map (\<lambda>e. snd (snd (snd e))) es)]"
    and "pending_for (advance t (burst d es (text_change s d delta c st))) d = []"
proof -
  let ?st = "text_change s d delta c st"
  have a: "armed ?st d c"
    using assms(1,2) by (rule armed_text_change)
  from burst_armed [OF a assms(3)]
  have b: "armed (burst d es ?st) d (last (c # map (\<lambda>e. snd (snd (snd e))) es))"
    and w: "writes_to (burst d es ?st) d = writes_to st d"
    by simp_all
  show "writes_to (advance t (burst d es ?st)) d =
           writes_to st d @ [last (c # map (\<lambda>e. snd (snd (snd e))) es)]"
    using armed_fires(1) [OF b assms(4)] w by simp
  show "pending_for (advance t (burst d es ?st)) d = []"
    using armed_fires(2) [OF b assms(4)] .
qed

lemma init_timers: "timers_wf init \<and> registry_ok init d"
  by (simp add: timers_wf_def registry_ok_def pending_for_def init_def)

lemma clock_burst: "clock (burst d es st) = clock st + sum_list (map fst es)"
proof (induction es arbitrary: st)
  case Nil
  then show ?case by simp
next
  case (Cons e es)
  obtain gap s delta c where e: "e = (gap, s, delta, c)"
    by (cases e)
  show ?case
    unfolding e by (simp add: Cons.IH text_change_eq advance_frame)
qed

text \<open>
  From the start: edits at 0 s, 5 s and 10 s, then quiet until 40 s. The one write is the
  content of the edit at 10 s.
\<close>

lemma debounce_three_edits:
  "writes_to (advance 40000
       (burst ''d1'' [(5000, alice, ''+b'', ''ab''), (5000, bob, ''+c'', ''abc'')]
          (text_change alice ''d1'' ''+a'' ''a'' init))) ''d1'' = [''abc'']"
proof -
  have t: "timers_wf init" and r: "registry_ok init ''d1''"
    using init_timers by simp_all
  have g: "list_all (\<lambda>e. fst e < AUTO_SAVE_DEBOUNCE_MS)
             [(5000, alice, ''+b'', ''ab''), (5000, bob, ''+c'', ''abc'')]"
    by (simp add: AUTO_SAVE_DEBOUNCE_MS_def)
  have c: "clock (burst ''d1'' [(5000, alice, ''+b'', ''ab''), (5000, bob, ''+c'', ''abc'')]
                    (text_change alice ''d1'' ''+a'' ''a'' init)) + AUTO_SAVE_DEBOUNCE_MS
             \<le> 40000"
    unfolding clock_burst by (simp add: text_change_eq init_def AUTO_SAVE_DEBOUNCE_MS_def)
  have "writes_to init ''d1'' = []"
    by (simp add: writes_to_def init_def)
  with debounce_single_write(1) [OF t r g c] show ?thesis
    by simp
qed

subsection \<open>Which step can make the registry lose a timeout\<close>

lemma join_frame:
  "timeouts (join_document s d n found r st) = timeouts st"
  "autoSaveTimers (join_document s d n found r st) = autoSaveTimers st"
  "nextTimeout (join_document s d n found r st) = nextTimeout st"
  "storeWrites (join_document s d n found r st) = storeWrites st"
  by (simp_all add: join_document_def socket_emit_def socket_to_emit_def socket_join_def
        Let_def split: awaited.splits option.splits)

lemma cursor_move_frame:
  "timeouts (cursor_move s d p st) = timeouts st"
  "autoSaveTimers (cursor_move s d p st) = autoSaveTimers st"
  "nextTimeout (cursor_move s d p st) = nextTimeout st"
  by (simp_all add: cursor_move_def socket_to_emit_def split: option.splits)

lemma save_document_frame:
  "timeouts (save_document s d c ok st) = timeouts st"
  "autoSaveTimers (save_document s d c ok st) = autoSaveTimers st"
  "nextTimeout (save_document s d c ok st) = nextTimeout st"
  by (simp_all add: save_document_def socket_emit_def socket_to_emit_def Let_def)

lemma autosave_settled_frame:
  "timeouts (autosave_settled d ok st) = timeouts st"
  "nextTimeout (autosave_settled d ok st) = nextTimeout st"
  by (simp_all add: autosave_settled_def Let_def)

lemma disconnect_nextTimeout: "nextTimeout (disconnect s st) = nextTimeout st"
proof -
  have a: "nextTimeout (clear_timers xs st') = nextTimeout st'" for xs st'
    by (induction xs arbitrary: st') (simp_all add: clearTimeout_def)
  have b: "nextTimeout (leave_rooms s xs st') = nextTimeout st'" for xs st'
    by (induction xs arbitrary: st') (simp_all add: handleUserLeave_frame)
  show ?thesis
    by (simp add: disconnect_def disconnect_handler_def Let_def a b)
qed

lemma step_timers_wf: "timers_wf st \<Longrightarrow> timers_wf (step e st)"
proof (cases e)
  case (Connection s)
  then show "timers_wf st \<Longrightarrow> ?thesis"
    by (simp add: timers_wf_def)
next
  case (JoinDocument s d n found r)
  then show "timers_wf st \<Longrightarrow> ?thesis"
    by (simp add: timers_wf_def join_frame)
next
  case (TextChangeEv s d delta c)
  then show "timers_wf st \<Longrightarrow> ?thesis"
    by (simp add: timers_wf_text_change)
next
  case (CursorMoveEv s d p)
  then show "timers_wf st \<Longrightarrow> ?thesis"
    by (simp add: timers_wf_def cursor_move_frame)
next
  case (SaveDocument s d c ok)
  then show "timers_wf st \<Longrightarrow> ?thesis"
    by (simp add: timers_wf_def save_document_frame)
next
  case (LeaveDocument s d)
  then show "timers_wf st \<Longrightarrow> ?thesis"
    by (simp add: timers_wf_def leave_document_def handleUserLeave_frame)
next
  case (Disconnect s)
  then show "timers_wf st \<Longrightarrow> ?thesis"
    by (simp add: timers_wf_def disconnect_timeouts disconnect_nextTimeout
          distinct_map_filter list_all_iff)
next
  case (Elapse ms)
  then show "timers_wf st \<Longrightarrow> ?thesis"
    by (simp add: timers_wf_advance)
next
  case (AutoSaveSettled d ok)
  then show "timers_wf st \<Longrightarrow> ?thesis"
    by (simp add: timers_wf_def autosave_settled_frame)
qed

lemma registry_ok_text_change_other:
  assumes "registry_ok st d" and "d' \<noteq> d"
  shows "registry_ok (text_change s d' delta c st) d"
proof -
  have "set (pending_for (text_change s d' delta c st) d) \<subseteq> set (pending_for st d)"
    using assms(2)
    by (auto simp: pending_for_def text_change_eq set_delete split: option.splits)
  moreover have "map_of (autoSaveTimers (text_change s d' delta c st)) d =
                 map_of (autoSaveTimers st) d"
    using assms(2) by (simp add: text_change_eq update_conv')
  ultimately show ?thesis
    using assms(1) by (auto simp: registry_ok_def list_all_iff)
qed

lemma registry_ok_disconnect:
  assumes "registry_ok st d"
  shows "registry_ok (disconnect s st) d"
proof -
  have "pending_for (disconnect s st) d = []"
  proof -
    have "fst p \<in> (\<lambda>q. timeout (snd q)) ` set (autoSaveTimers st)"
      if "p \<in> set (pending_for st d)" for p
    proof -
      from assms that obtain e where e: "map_of (autoSaveTimers st) d = Some e"
        and t: "timeout e = fst p"
        by (auto simp: registry_ok_def list_all_iff split: option.splits)
      from e have "(d, e) \<in> set (autoSaveTimers st)"
        by (rule map_of_SomeD)
      with t show ?thesis by force
    qed
    then show ?thesis
      by (auto simp: pending_for_def disconnect_timeouts filter_empty_conv)
  qed
  then show ?thesis
    by (simp add: registry_ok_def)
qed

text \<open>
  Every step keeps the registry's knowledge of a document's pending timeouts, but one:
  an auto-save write of that document that resolves while a timeout of the document is
  pending. Its callback then deletes the registry entry of the pending timeout.
\<close>

lemma step_registry_ok:
  assumes "timers_wf st" and "registry_ok st d"
    and "e = AutoSaveSettled d True \<Longrightarrow> pending_for st d = []"
  shows "registry_ok (step e st) d"
proof (cases e)
  case (Connection s)
  with assms(2) show ?thesis
    by (simp add: registry_ok_def pending_for_def)
next
  case (JoinDocument s d' n found r)
  with assms(2) show ?thesis
    by (simp add: registry_ok_def pending_for_def join_frame)
next
  case (TextChangeEv s d' delta c)
  with assms(2) show ?thesis
    by (cases "d' = d") (simp_all add: registry_ok_text_change registry_ok_text_change_other)
next
  case (CursorMoveEv s d' p)
  with assms(2) show ?thesis
    by (simp add: registry_ok_def pending_for_def cursor_move_frame)
next
  case (SaveDocument s d' c ok)
  with assms(2) show ?thesis
    by (simp add: registry_ok_def pending_for_def save_document_frame)
next
  case (LeaveDocument s d')
  with assms(2) show ?thesis
    by (simp add: registry_ok_def pending_for_def leave_document_def handleUserLeave_frame)
next
  case (Disconnect s)
  with assms(2) show ?thesis
    by (simp add: registry_ok_disconnect)
next
  case (Elapse ms)
  with assms(1,2) show ?thesis
    by (simp add: registry_ok_advance)
next
  case (AutoSaveSettled d' ok)
  show ?thesis
  proof (cases "d' = d \<and> ok")
    case True
    with AutoSaveSettled assms(3) have "pending_for st d = []"
      by simp
    then have "pending_for (step e st) d = []"
      using AutoSaveSettled by (simp add: pending_for_def autosave_settled_frame)
    then show ?thesis
      by (simp add: registry_ok_def)
  next
    case False
    then have "map_of (autoSaveTimers (autosave_settled d' ok st)) d =
               map_of (autoSaveTimers st) d"
      by (auto simp: autosave_settled_def Let_def delete_conv')
    with AutoSaveSettled assms(2) show ?thesis
      by (simp add: registry_ok_def pending_for_def autosave_settled_frame)
  qed
qed

lemma run_timers_wf: "timers_wf st \<Longrightarrow> timers_wf (run es st)"
  unfolding run_def by (induction es arbitrary: st) (simp_all add: step_timers_wf)

subsection \<open>The run that loses a timeout\<close>

lemma race_state:
  "run race_trace init =
     \<lparr>documentRooms = [],
      autoSaveTimers = [(''d1'', \<lparr>save_documentId = ''d1'', content = ''abc'', timeout = 2\<rparr>)],
      sioRooms = (\<lambda>_. {}),
      outbox = [({}, TextChange ''+a'' ''a'' ''u1''), ({}, TextChange ''+b'' ''ab'' ''u1''),
                ({}, TextChange ''+c'' ''abc'' ''u1'')],
      clock = 31010,
      timeouts = [(1, \<lparr>fireAt = 60005, cb_documentId = ''d1'', cb_content = ''ab'',
                        cb_userId = ''u1''\<rparr>),
                  (2, \<lparr>fireAt = 61010, cb_documentId = ''d1'', cb_content = ''abc'',
                        cb_userId = ''u1''\<rparr>)],
      nextTimeout = 3,
      storeWrites = [(''d1'', ''a'')],
      inFlight = [],
      connected = {}\<rparr>"
  by (simp add: run_def race_trace_def text_change_eq advance_def due_def fire_def
        autosave_fire_def autosave_settled_def init_def alice_def AUTO_SAVE_DEBOUNCE_MS_def)

lemma run_append: "run (es @ es') st = run es' (run es st)"
  by (simp add: run_def)

text \<open>
  C4, on the code. After the run \<open>race_trace\<close> two timeouts of document \<open>d1\<close> are pending
  at once. The registry records only the later one: the entry of the earlier one was
  deleted when the write of \<open>a\<close> resolved, so the third edit found no entry and cleared
  nothing.
\<close>

theorem race_two_pending_timers:
  "pending_for (run race_trace init) ''d1'' =
     [(1, \<lparr>fireAt = 60005, cb_documentId = ''d1'', cb_content = ''ab'', cb_userId = ''u1''\<rparr>),
      (2, \<lparr>fireAt = 61010, cb_documentId = ''d1'', cb_content = ''abc'', cb_userId = ''u1''\<rparr>)]
   \<and> autoSaveTimers (run race_trace init) =
       [(''d1'', \<lparr>save_documentId = ''d1'', content = ''abc'', timeout = 2\<rparr>)]"
  by (simp add: race_state pending_for_def)

text \<open>
  C3, on the code. In the same run the edits \<open>ab\<close> and \<open>abc\<close> arrive 1005 ms apart, well
  within the debounce interval, and thirty seconds later both have been written: the
  store receives the intermediate content \<open>ab\<close> as well as the last content \<open>abc\<close>.
\<close>

theorem race_two_writes_for_one_burst:
  "writes_to (run (race_trace @ [Elapse 30000]) init) ''d1'' = [''a'', ''ab'', ''abc'']"
  unfolding run_append race_state
  by (simp add: run_def advance_def due_def fire_def autosave_fire_def writes_to_def)

end
